theory Spec2Isabelle
  imports Main "HOL-Library.Word" "HOL-Library.Signed_Division"
begin

section \<open>The enumerations of RawTile.h\<close>

datatype ColorSpace = NONE | GREYSCALE | sRGB | CIELAB | BINARY

datatype ImageEncoding =
  UNSUPPORTED | RAW | TIFF | JPEG2000 | JPEG | DEFLATE | PNG | WEBP | AVIF

datatype SampleType = FIXEDPOINT | FLOATINGPOINT

section \<open>Memory\<close>

text \<open>
  The tile keeps its samples behind a \<^verbatim>\<open>void*\<close> obtained from \<^verbatim>\<open>new[]\<close>. The free
  store is a finite table of live blocks, each a list of bytes, together with the number of
  bytes the memory system can still hand out. A byte of a block that was never written has
  an indeterminate value: \<open>None\<close>. A pointer to the start of a block is its address; the
  null pointer is \<open>None\<close>.
\<close>

type_synonym addr = nat

type_synonym byte = "8 word option"

datatype error =
  AllocationFailure
  | NullPointer
  | DanglingPointer
  | OutOfBounds
  | OverlappingCopy
  | InvalidFree
  | UseAfterDelete

record heap =
  blocks :: "(addr \<times> byte list) list"
  avail :: nat

definition lookup :: "heap \<Rightarrow> addr \<Rightarrow> byte list option" where
  "lookup hp p = map_of (blocks hp) p"

text \<open>An address above every live block.\<close>

primrec fresh_addr :: "(addr \<times> byte list) list \<Rightarrow> addr" where
  "fresh_addr [] = 0"
| "fresh_addr (b # bs) = max (Suc (fst b)) (fresh_addr bs)"

text \<open>
  \<^verbatim>\<open>new T[n]\<close> for a scalar type, \<open>nbytes = n * sizeof(T)\<close>: throws when the memory
  system cannot satisfy the request, and returns a block of indeterminate bytes otherwise.
\<close>

definition new_array :: "heap \<Rightarrow> nat \<Rightarrow> error + addr \<times> heap" where
  "new_array hp nbytes =
     (if avail hp < nbytes then Inl AllocationFailure
      else Inr (fresh_addr (blocks hp),
                hp\<lparr>blocks := (fresh_addr (blocks hp), replicate nbytes None) # blocks hp,
                   avail := avail hp - nbytes\<rparr>))"

text \<open>\<^verbatim>\<open>delete[] p\<close> for a non-null \<open>p\<close>: defined only on a live block.\<close>

definition delete_array :: "heap \<Rightarrow> addr \<Rightarrow> error + heap" where
  "delete_array hp p =
     (case lookup hp p of
        None \<Rightarrow> Inl InvalidFree
      | Some bs \<Rightarrow>
          Inr (hp\<lparr>blocks := filter (\<lambda>b. fst b \<noteq> p) (blocks hp),
                  avail := avail hp + length bs\<rparr>))"

text \<open>Replacing the contents of a live block.\<close>

definition set_block :: "heap \<Rightarrow> addr \<Rightarrow> byte list \<Rightarrow> heap" where
  "set_block hp p bs = hp\<lparr>blocks := map (\<lambda>b. if fst b = p then (p, bs) else b) (blocks hp)\<rparr>"

text \<open>The bytes \<open>bs\<close> with \<open>vs\<close> written over them from offset \<open>off\<close> on.\<close>

definition overwrite :: "'a list \<Rightarrow> nat \<Rightarrow> 'a list \<Rightarrow> 'a list" where
  "overwrite bs off vs = take off bs @ vs @ drop (off + length vs) bs"

text \<open>
  Writing the bytes \<open>vs\<close> at byte offset \<open>off\<close> of the block \<open>p\<close>; reading \<open>n\<close> bytes
  at byte offset \<open>off\<close>. Both fail outside a live block.
\<close>

definition store_bytes :: "heap \<Rightarrow> addr option \<Rightarrow> nat \<Rightarrow> byte list \<Rightarrow> error + heap" where
  "store_bytes hp q off vs =
     (case q of
        None \<Rightarrow> Inl NullPointer
      | Some p \<Rightarrow>
          (case lookup hp p of
             None \<Rightarrow> Inl DanglingPointer
           | Some bs \<Rightarrow>
               if length bs < off + length vs then Inl OutOfBounds
               else Inr (set_block hp p (overwrite bs off vs))))"

definition load_bytes :: "heap \<Rightarrow> addr option \<Rightarrow> nat \<Rightarrow> nat \<Rightarrow> error + byte list" where
  "load_bytes hp q off n =
     (case q of
        None \<Rightarrow> Inl NullPointer
      | Some p \<Rightarrow>
          (case lookup hp p of
             None \<Rightarrow> Inl DanglingPointer
           | Some bs \<Rightarrow>
               if length bs < off + n then Inl OutOfBounds
               else Inr (take n (drop off bs))))"

text \<open>
  \<^verbatim>\<open>memcpy(dst + doff, src + soff, n)\<close>: both ranges must lie in live blocks and must not
  overlap.
\<close>

definition memcpy ::
  "heap \<Rightarrow> addr option \<Rightarrow> nat \<Rightarrow> addr option \<Rightarrow> nat \<Rightarrow> nat \<Rightarrow> error + heap" where
  "memcpy hp dst doff src soff n =
     (case load_bytes hp src soff n of
        Inl e \<Rightarrow> Inl e
      | Inr vs \<Rightarrow>
          if dst = src \<and> dst \<noteq> None \<and> doff < soff + n \<and> soff < doff + n
          then Inl OverlappingCopy
          else store_bytes hp dst doff vs)"

section \<open>The class RawTile\<close>

text \<open>
  \<^verbatim>\<open>unsigned int\<close>, \<^verbatim>\<open>uint32_t\<close> and \<^verbatim>\<open>int\<close> are 32-bit words (an \<^verbatim>\<open>int\<close> is read
  through \<open>sint\<close>), \<^verbatim>\<open>time_t\<close> is a 64-bit word.
\<close>

record RawTile =
  filename :: string
  width :: "32 word"
  height :: "32 word"
  channels :: "32 word"
  bpc :: "32 word"
  sampleType :: SampleType
  compressionType :: ImageEncoding
  quality :: "32 word"
  timestamp :: "64 word"
  tileNum :: "32 word"
  resolution :: "32 word"
  hSequence :: "32 word"
  vSequence :: "32 word"
  capacity :: "32 word"
  dataLength :: "32 word"
  memoryManaged :: "32 word"
  data :: "addr option"

text \<open>The main constructor.\<close>

definition RawTile_ctor ::
  "32 word \<Rightarrow> 32 word \<Rightarrow> 32 word \<Rightarrow> 32 word \<Rightarrow> 32 word \<Rightarrow> 32 word \<Rightarrow> 32 word \<Rightarrow> 32 word
     \<Rightarrow> RawTile" where
  "RawTile_ctor tn res hs vs w h c b =
     \<lparr>filename = [], width = w, height = h, channels = c, bpc = b,
      sampleType = FIXEDPOINT, compressionType = RAW, quality = 0, timestamp = 0,
      tileNum = tn, resolution = res, hSequence = hs, vSequence = vs,
      capacity = 0, dataLength = 0, memoryManaged = 1, data = None\<rparr>"

text \<open>The division \<^verbatim>\<open>bpc/8\<close> of two \<^verbatim>\<open>int\<close>s, which truncates towards zero.\<close>

definition int_div :: "32 word \<Rightarrow> 32 word \<Rightarrow> 32 word" where
  "int_div a b = word_of_int (sint a sdiv sint b)"

text \<open>
  The number of bytes that \<open>allocate\<close> requests for \<open>sz\<close>: \<^verbatim>\<open>new float[sz/4]\<close> or
  \<^verbatim>\<open>new int[sz/4]\<close> for 32 bits, \<^verbatim>\<open>new unsigned short[sz/2]\<close> for 16 bits,
  \<^verbatim>\<open>new unsigned char[sz]\<close> otherwise.
\<close>

definition alloc_bytes :: "RawTile \<Rightarrow> 32 word \<Rightarrow> nat" where
  "alloc_bytes t sz =
     (if bpc t = 32 then
        (if sampleType t = FLOATINGPOINT then unat (sz div 4) * 4 else unat (sz div 4) * 4)
      else if bpc t = 16 then unat (sz div 2) * 2
      else unat sz)"

definition allocate :: "RawTile \<Rightarrow> 32 word \<Rightarrow> heap \<Rightarrow> error + RawTile \<times> heap" where
  "allocate t sz0 hp =
     (let sz = (if sz0 = 0 then width t * height t * channels t * int_div (bpc t) 8 else sz0)
      in case new_array hp (alloc_bytes t sz) of
           Inl e \<Rightarrow> Inl e
         | Inr (p, hp') \<Rightarrow> Inr (t\<lparr>data := Some p, memoryManaged := 1, capacity := sz\<rparr>, hp'))"

text \<open>
  \<open>deallocate\<close> receives the pointer by value: the assignment \<^verbatim>\<open>buffer = NULL\<close> changes
  the parameter only, and no field but \<open>capacity\<close> and \<open>dataLength\<close> is written.
\<close>

definition deallocate :: "RawTile \<Rightarrow> addr option \<Rightarrow> heap \<Rightarrow> error + RawTile \<times> heap" where
  "deallocate t buffer hp =
     (case buffer of
        None \<Rightarrow> Inr (t, hp)
      | Some p \<Rightarrow>
          (case (if bpc t = 32 then
                   (if sampleType t = FLOATINGPOINT then delete_array hp p
                    else delete_array hp p)
                 else if bpc t = 16 then delete_array hp p
                 else delete_array hp p) of
             Inl e \<Rightarrow> Inl e
           | Inr hp' \<Rightarrow> Inr (t\<lparr>capacity := 0, dataLength := 0\<rparr>, hp')))"

text \<open>The destructor.\<close>

definition destructor :: "RawTile \<Rightarrow> heap \<Rightarrow> error + RawTile \<times> heap" where
  "destructor t hp = (if memoryManaged t \<noteq> 0 then deallocate t (data t) hp else Inr (t, hp))"

text \<open>The two comparison operators, each with its own copy of the test.\<close>

definition op_eq :: "RawTile \<Rightarrow> RawTile \<Rightarrow> int" where
  "op_eq A B =
     (if tileNum A = tileNum B \<and> resolution A = resolution B \<and> hSequence A = hSequence B
         \<and> vSequence A = vSequence B \<and> compressionType A = compressionType B
         \<and> quality A = quality B \<and> filename A = filename B
      then 1 else 0)"

definition op_ne :: "RawTile \<Rightarrow> RawTile \<Rightarrow> int" where
  "op_ne A B =
     (if tileNum A = tileNum B \<and> resolution A = resolution B \<and> hSequence A = hSequence B
         \<and> vSequence A = vSequence B \<and> compressionType A = compressionType B
         \<and> quality A = quality B \<and> filename A = filename B
      then 0 else 1)"

section \<open>Reshaping\<close>

text \<open>
  The scanline loop of \<open>crop\<close>. The counter \<open>i\<close> stays below the \<^verbatim>\<open>unsigned int\<close> \<open>h\<close>
  and cannot wrap; \<open>doff\<close> and \<open>soff\<close> are the distances of \<^verbatim>\<open>dst_ptr\<close> and
  \<^verbatim>\<open>src_ptr\<close> from the start of their buffers.
\<close>

function crop_loop ::
  "heap \<Rightarrow> addr option \<Rightarrow> nat \<Rightarrow> addr option \<Rightarrow> nat \<Rightarrow> nat \<Rightarrow> nat \<Rightarrow> nat \<Rightarrow> nat
     \<Rightarrow> error + heap" where
  "crop_loop hp dst doff src soff dlen slen h i =
     (if i < h then
        (case memcpy hp dst doff src soff dlen of
           Inl e \<Rightarrow> Inl e
         | Inr hp' \<Rightarrow> crop_loop hp' dst (doff + dlen) src (soff + slen) dlen slen h (Suc i))
      else Inr hp)"
  by pat_completeness auto
termination
  by (relation "measure (\<lambda>(hp, dst, doff, src, soff, dlen, slen, h, i). h - i)") auto

definition crop :: "RawTile \<Rightarrow> 32 word \<Rightarrow> 32 word \<Rightarrow> heap \<Rightarrow> error + RawTile \<times> heap" where
  "crop t w h hp =
     (let buffer = data t;
          mm = memoryManaged t;
          len = w * h * channels t * int_div (bpc t) 8
      in case allocate t len hp of
           Inl e \<Rightarrow> Inl e
         | Inr (t1, hp1) \<Rightarrow>
             (let dlen = w * channels t1 * int_div (bpc t1) 8;
                  slen = width t1 * channels t1 * int_div (bpc t1) 8
              in case crop_loop hp1 (data t1) 0 buffer 0 (unat dlen) (unat slen) (unat h) 0 of
                   Inl e \<Rightarrow> Inl e
                 | Inr hp2 \<Rightarrow>
                     (case (if mm \<noteq> 0 then deallocate t1 buffer hp2 else Inr (t1, hp2)) of
                        Inl e \<Rightarrow> Inl e
                      | Inr (t2, hp3) \<Rightarrow>
                          Inr (t2\<lparr>capacity := len, dataLength := len, width := w, height := h\<rparr>,
                               hp3))))"

text \<open>
  The size in bytes of the element type through which \<open>triplicate\<close> reads and writes:
  \<^verbatim>\<open>float\<close> or \<^verbatim>\<open>unsigned int\<close> for 32 bits, \<^verbatim>\<open>unsigned short\<close> for 16 bits,
  \<^verbatim>\<open>unsigned char\<close> otherwise.
\<close>

definition elem_size :: "RawTile \<Rightarrow> nat" where
  "elem_size t =
     (if bpc t = 32 then (if sampleType t = FLOATINGPOINT then 4 else 4)
      else if bpc t = 16 then 2
      else 1)"

text \<open>The assignment \<^verbatim>\<open>((T*) dst)[j] = ((T*) src)[i]\<close> for an element type of \<open>es\<close> bytes.\<close>

definition copy_elem ::
  "heap \<Rightarrow> nat \<Rightarrow> addr option \<Rightarrow> nat \<Rightarrow> addr option \<Rightarrow> nat \<Rightarrow> error + heap" where
  "copy_elem hp es dst j src i =
     (case load_bytes hp src (i * es) es of
        Inl e \<Rightarrow> Inl e
      | Inr vs \<Rightarrow> store_bytes hp dst (j * es) vs)"

text \<open>
  The two loops of \<open>triplicate\<close>. The index \<open>n\<close> is a \<^verbatim>\<open>uint32_t\<close> and \<^verbatim>\<open>n + k\<close> is
  computed in 32 bits; \<open>k\<close> stays below 3 and \<open>i\<close> below \<open>len\<close>.
\<close>

function trip_inner ::
  "heap \<Rightarrow> RawTile \<Rightarrow> addr option \<Rightarrow> nat \<Rightarrow> 32 word \<Rightarrow> nat \<Rightarrow> error + heap" where
  "trip_inner hp t buffer i n k =
     (if k < 3 then
        (case copy_elem hp (elem_size t) (data t) (unat (n + word_of_nat k)) buffer i of
           Inl e \<Rightarrow> Inl e
         | Inr hp' \<Rightarrow> trip_inner hp' t buffer i n (Suc k))
      else Inr hp)"
  by pat_completeness auto
termination
  by (relation "measure (\<lambda>(hp, t, buffer, i, n, k). 3 - k)") auto

function trip_loop ::
  "heap \<Rightarrow> RawTile \<Rightarrow> addr option \<Rightarrow> nat \<Rightarrow> nat \<Rightarrow> 32 word \<Rightarrow> error + heap" where
  "trip_loop hp t buffer len i n =
     (if i < len then
        (case trip_inner hp t buffer i n 0 of
           Inl e \<Rightarrow> Inl e
         | Inr hp' \<Rightarrow> trip_loop hp' t buffer len (Suc i) (n + 3))
      else Inr hp)"
  by pat_completeness auto
termination
  by (relation "measure (\<lambda>(hp, t, buffer, len, i, n). len - i)") auto

definition triplicate :: "RawTile \<Rightarrow> heap \<Rightarrow> error + RawTile \<times> heap" where
  "triplicate t hp =
     (if channels t \<noteq> 1 then Inr (t, hp)
      else
        (let buffer = data t;
             mm = memoryManaged t
         in case allocate (t\<lparr>channels := 3\<rparr>) 0 hp of
              Inl e \<Rightarrow> Inl e
            | Inr (t1, hp1) \<Rightarrow>
                (let len = width t1 * height t1
                 in case trip_loop hp1 t1 buffer (unat len) 0 0 of
                      Inl e \<Rightarrow> Inl e
                    | Inr hp2 \<Rightarrow>
                        (case (if mm \<noteq> 0 then deallocate t1 buffer hp2 else Inr (t1, hp2)) of
                           Inl e \<Rightarrow> Inl e
                         | Inr (t2, hp3) \<Rightarrow>
                             Inr (t2\<lparr>capacity := len, dataLength := len\<rparr>, hp3)))))"

section \<open>Copying and moving\<close>

text \<open>
  What the copy and move paths share: \<^verbatim>\<open>allocate( tile.dataLength )\<close>, the \<^verbatim>\<open>memcpy\<close>
  of \<^verbatim>\<open>tile.dataLength\<close> bytes and \<^verbatim>\<open>memoryManaged = 1\<close>.
\<close>

definition copy_data :: "RawTile \<Rightarrow> RawTile \<Rightarrow> heap \<Rightarrow> error + RawTile \<times> heap" where
  "copy_data this tile hp =
     (case allocate this (dataLength tile) hp of
        Inl e \<Rightarrow> Inl e
      | Inr (this1, hp1) \<Rightarrow>
          (case memcpy hp1 (data this1) 0 (data tile) 0 (unat (dataLength tile)) of
             Inl e \<Rightarrow> Inl e
           | Inr hp2 \<Rightarrow> Inr (this1\<lparr>memoryManaged := 1\<rparr>, hp2)))"

text \<open>The copy constructor: the source is \<^verbatim>\<open>const\<close>, the new tile is returned.\<close>

definition copy_ctor :: "RawTile \<Rightarrow> heap \<Rightarrow> error + RawTile \<times> heap" where
  "copy_ctor tile hp =
     (let this =
            \<lparr>filename = filename tile, width = width tile, height = height tile,
             channels = channels tile, bpc = bpc tile, sampleType = sampleType tile,
             compressionType = compressionType tile, quality = quality tile,
             timestamp = timestamp tile, tileNum = tileNum tile,
             resolution = resolution tile, hSequence = hSequence tile,
             vSequence = vSequence tile, capacity = capacity tile,
             dataLength = dataLength tile, memoryManaged = memoryManaged tile, data = None\<rparr>
      in if data tile \<noteq> None \<and> 0 < dataLength tile then copy_data this tile hp
         else Inr (this, hp))"

text \<open>
  Copy assignment. \<open>same\<close> says that \<^verbatim>\<open>this == &tile\<close>; the tile that was assigned to
  is returned.
\<close>

definition copy_assign :: "bool \<Rightarrow> RawTile \<Rightarrow> RawTile \<Rightarrow> heap \<Rightarrow> error + RawTile \<times> heap" where
  "copy_assign same this tile hp =
     (if \<not> same then
        (let this1 =
               this\<lparr>tileNum := tileNum tile, resolution := resolution tile,
                    hSequence := hSequence tile, vSequence := vSequence tile,
                    compressionType := compressionType tile, quality := quality tile,
                    filename := filename tile, timestamp := timestamp tile,
                    memoryManaged := memoryManaged tile, dataLength := dataLength tile,
                    width := width tile, height := height tile, channels := channels tile,
                    bpc := bpc tile, sampleType := sampleType tile,
                    capacity := capacity tile\<rparr>
         in if data tile \<noteq> None \<and> 0 < dataLength tile then copy_data this1 tile hp
            else Inr (this1, hp))
      else Inr (this, hp))"

text \<open>
  The move constructor returns the new tile and the source as it is left. The member
  initialiser \<^verbatim>\<open>filename( tile.filename )\<close> copies the string.
\<close>

definition move_ctor :: "RawTile \<Rightarrow> heap \<Rightarrow> error + (RawTile \<times> RawTile) \<times> heap" where
  "move_ctor tile hp =
     (let this =
            \<lparr>filename = filename tile, width = width tile, height = height tile,
             channels = channels tile, bpc = bpc tile, sampleType = sampleType tile,
             compressionType = compressionType tile, quality = quality tile,
             timestamp = timestamp tile, tileNum = tileNum tile,
             resolution = resolution tile, hSequence = hSequence tile,
             vSequence = vSequence tile, capacity = capacity tile,
             dataLength = dataLength tile, memoryManaged = memoryManaged tile, data = None\<rparr>
      in if memoryManaged tile = 1 then
           Inr ((this\<lparr>data := data tile\<rparr>,
                 tile\<lparr>data := None, dataLength := 0, capacity := 0, memoryManaged := 0\<rparr>),
                hp)
         else if data tile \<noteq> None \<and> 0 < dataLength tile then
           (case copy_data this tile hp of
              Inl e \<Rightarrow> Inl e
            | Inr (this1, hp1) \<Rightarrow> Inr ((this1, tile), hp1))
         else Inr ((this, tile), hp))"

text \<open>
  Move assignment returns the tile assigned to and the source as it is left. When the
  destination holds data the operator runs \<^verbatim>\<open>delete this\<close>: the destructor, then the
  release of the object's own storage; every statement after it writes to a member of the
  deleted object. The moved-from \<^verbatim>\<open>std::string\<close> is left empty.
\<close>

definition move_assign ::
  "bool \<Rightarrow> RawTile \<Rightarrow> RawTile \<Rightarrow> heap \<Rightarrow> error + (RawTile \<times> RawTile) \<times> heap" where
  "move_assign same this tile hp =
     (if \<not> same then
        (if data this \<noteq> None \<and> 0 < dataLength this then
           (case destructor this hp of
              Inl e \<Rightarrow> Inl e
            | Inr gone \<Rightarrow> Inl UseAfterDelete)
         else
           (let this1 =
                  this\<lparr>filename := filename tile, tileNum := tileNum tile,
                       resolution := resolution tile, hSequence := hSequence tile,
                       vSequence := vSequence tile, compressionType := compressionType tile,
                       quality := quality tile, timestamp := timestamp tile,
                       memoryManaged := memoryManaged tile, capacity := capacity tile,
                       dataLength := dataLength tile, width := width tile,
                       height := height tile, channels := channels tile, bpc := bpc tile,
                       sampleType := sampleType tile\<rparr>;
                tile1 = tile\<lparr>filename := []\<rparr>
            in if memoryManaged tile1 = 1 then
                 Inr ((this1\<lparr>data := data tile1\<rparr>,
                       tile1\<lparr>data := None, dataLength := 0, capacity := 0,
                             memoryManaged := 0\<rparr>),
                      hp)
               else if data tile1 \<noteq> None \<and> 0 < dataLength tile1 then
                 (case copy_data this1 tile1 hp of
                    Inl e \<Rightarrow> Inl e
                  | Inr (this2, hp1) \<Rightarrow> Inr ((this2, tile1), hp1))
               else Inr ((this1, tile1), hp)))
      else Inr ((this, tile), hp))"

section \<open>Vocabulary of the properties\<close>

text \<open>
  The size in bytes that the fields of a tile imply, in the 32-bit unsigned arithmetic of
  the code.
\<close>

definition implied_size :: "RawTile \<Rightarrow> 32 word" where
  "implied_size t = width t * height t * channels t * int_div (bpc t) 8"

text \<open>
  The number of bytes of a scanline of \<open>w\<close> pixels, as a natural number: no
  wrap-around.
\<close>

definition scanline_bytes :: "RawTile \<Rightarrow> 32 word \<Rightarrow> nat" where
  "scanline_bytes t w = unat w * unat (channels t) * unat (int_div (bpc t) 8)"

text \<open>
  The top-left rectangle of a buffer made of scanlines of \<open>slen\<close> bytes: its first
  \<open>h\<close> scanlines, in order, each cut down to its first \<open>dlen\<close> bytes.
\<close>

definition top_left :: "'a list \<Rightarrow> nat \<Rightarrow> nat \<Rightarrow> nat \<Rightarrow> 'a list" where
  "top_left bs slen dlen h =
     concat (map (\<lambda>i. take dlen (take slen (drop (i * slen) bs))) [0..<h])"

text \<open>
  What the scanline loop has copied after \<open>k\<close> rounds, starting \<open>soff\<close> bytes into
  the source.
\<close>

definition rows :: "'a list \<Rightarrow> nat \<Rightarrow> nat \<Rightarrow> nat \<Rightarrow> nat \<Rightarrow> 'a list" where
  "rows sb soff slen dlen k = concat (map (\<lambda>j. take dlen (drop (soff + j * slen) sb)) [0..<k])"

text \<open>
  The element \<open>i\<close> of a buffer whose elements are \<open>es\<close> bytes wide, and the
  buffer in which each of the elements \<open>i..<len\<close> of \<open>sb\<close> stands three times.
\<close>

definition sample :: "nat \<Rightarrow> 'a list \<Rightarrow> nat \<Rightarrow> 'a list" where
  "sample es bs i = take es (drop (i * es) bs)"

definition tripled :: "nat \<Rightarrow> 'a list \<Rightarrow> nat \<Rightarrow> nat \<Rightarrow> 'a list" where
  "tripled es sb i len = concat (map (\<lambda>j. concat (replicate 3 (sample es sb j))) [i..<len])"

section \<open>Tiles and heaps of the examples\<close>

text \<open>
  The 4 by 4 tile of one 8-bit channel with the bytes 0 to 15, a fresh 2 by 2 tile, a
  2 by 1 tile of one 16-bit channel, a tile as a move leaves its source, and a second tile
  with a buffer of its own.
\<close>

definition bytes_4x4 :: "byte list" where
  "bytes_4x4 = map Some [0, 1, 2, 3, 4, 5, 6, 7, 8, 9, 10, 11, 12, 13, 14, 15]"

definition tile_4x4 :: RawTile where
  "tile_4x4 = (RawTile_ctor 0 0 0 0 4 4 1 8)\<lparr>capacity := 16, dataLength := 16, data := Some 0\<rparr>"

definition heap_4x4 :: heap where
  "heap_4x4 = \<lparr>blocks = [(0, bytes_4x4)], avail = 100\<rparr>"

definition tile_2x2 :: RawTile where
  "tile_2x2 = RawTile_ctor 0 0 0 0 2 2 1 8"

definition heap_empty :: heap where
  "heap_empty = \<lparr>blocks = [], avail = 100\<rparr>"

definition tile_2x1_16 :: RawTile where
  "tile_2x1_16 = (RawTile_ctor 0 0 0 0 2 1 1 16)\<lparr>capacity := 4, dataLength := 4, data := Some 0\<rparr>"

definition heap_2x1_16 :: heap where
  "heap_2x1_16 = \<lparr>blocks = [(0, [Some 1, Some 2, Some 3, Some 4])], avail = 100\<rparr>"

definition tile_moved_from :: RawTile where
  "tile_moved_from = (RawTile_ctor 0 0 0 0 2 2 1 8)\<lparr>memoryManaged := 0\<rparr>"

definition tile_other :: RawTile where
  "tile_other = (RawTile_ctor 1 0 0 0 2 2 1 8)\<lparr>capacity := 4, dataLength := 4, data := Some 1\<rparr>"

definition heap_two :: heap where
  "heap_two = \<lparr>blocks = [(1, [Some 1, Some 2, Some 3, Some 4]), (0, bytes_4x4)], avail = 100\<rparr>"

text \<open>
  A tile of 65536 by 65536 pixels over a borrowed buffer of \<open>2 ^ 32\<close> bytes; a tile of
  1431655766 by 1 pixels, three times which is \<open>2 ^ 32 + 2\<close>; and a 16-bit tile whose
  \<open>dataLength\<close> is odd.
\<close>

definition tile_huge :: RawTile where
  "tile_huge = (RawTile_ctor 0 0 0 0 65536 65536 1 8)\<lparr>memoryManaged := 0, data := Some 0\<rparr>"

definition heap_huge :: heap where
  "heap_huge = \<lparr>blocks = [(0, replicate (65536 * 65536) (Some 7))], avail = 100\<rparr>"

definition tile_wide :: RawTile where
  "tile_wide = (RawTile_ctor 0 0 0 0 1431655766 1 1 8)
     \<lparr>capacity := 1431655766, dataLength := 1431655766, data := Some 0\<rparr>"

definition heap_wide :: heap where
  "heap_wide = \<lparr>blocks = [(0, replicate 1431655766 (Some 7))], avail = 100\<rparr>"

definition tile_odd :: RawTile where
  "tile_odd = (RawTile_ctor 0 0 0 0 2 1 1 16)\<lparr>capacity := 3, dataLength := 3, data := Some 0\<rparr>"

definition heap_odd :: heap where
  "heap_odd = \<lparr>blocks = [(0, [Some 1, Some 2, Some 3])], avail = 100\<rparr>"

declare crop_loop.simps [simp del] trip_inner.simps [simp del] trip_loop.simps [simp del]

section \<open>Overwriting a part of a list\<close>

lemma length_overwrite: "off + length vs \<le> length bs \<Longrightarrow> length (overwrite bs off vs) = length bs"
  by (simp add: overwrite_def)

lemma overwrite_Nil: "off \<le> length bs \<Longrightarrow> overwrite bs off [] = bs"
  by (simp add: overwrite_def)

lemma overwrite_append:
  assumes "off + length vs + length ws \<le> length bs"
  shows "overwrite (overwrite bs off vs) (off + length vs) ws = overwrite bs off (vs @ ws)"
proof -
  have a: "length (take off bs) = off" using assms by simp
  have "take (off + length vs) (take off bs @ vs @ drop (off + length vs) bs) = take off bs @ vs"
    using a by simp
  moreover have "drop (off + length vs + length ws) (take off bs @ vs @ drop (off + length vs) bs)
      = drop (off + length vs + length ws) bs"
    using a by (simp add: add.commute)
  ultimately show ?thesis by (simp add: overwrite_def add.assoc)
qed

lemma overwrite_all: "length vs = length bs \<Longrightarrow> overwrite bs 0 vs = vs"
  by (simp add: overwrite_def)

lemma take_overwrite_0: "take (length vs) (overwrite bs 0 vs) = vs"
  by (simp add: overwrite_def)

section \<open>The free store\<close>

lemma fresh_addr_above: "(a, bs) \<in> set xs \<Longrightarrow> a < fresh_addr xs"
  by (induction xs) auto

lemma lookup_fresh: "lookup hp (fresh_addr (blocks hp)) = None"
proof (cases "lookup hp (fresh_addr (blocks hp))")
  case None
  then show ?thesis .
next
  case (Some bs)
  then have "(fresh_addr (blocks hp), bs) \<in> set (blocks hp)"
    by (simp add: lookup_def map_of_SomeD)
  then have "fresh_addr (blocks hp) < fresh_addr (blocks hp)"
    by (rule fresh_addr_above)
  then show ?thesis by simp
qed

lemma map_of_replace:
  "map_of (map (\<lambda>b. if fst b = p then (p, bs) else b) xs) q =
     (if q = p \<and> map_of xs p \<noteq> None then Some bs else map_of xs q)"
  by (induction xs) auto

lemma lookup_set_block:
  "lookup (set_block hp p bs) q = (if q = p \<and> lookup hp p \<noteq> None then Some bs else lookup hp q)"
  by (simp add: lookup_def set_block_def map_of_replace)

lemma map_of_remove:
  "map_of (filter (\<lambda>b. fst b \<noteq> p) xs) q = (if q = p then None else map_of xs q)"
  by (induction xs) auto

lemma avail_set_block: "avail (set_block hp p bs) = avail hp"
  by (simp add: set_block_def)

lemma new_array_Inr:
  "nbytes \<le> avail hp \<Longrightarrow>
   \<exists>hp'. new_array hp nbytes = Inr (fresh_addr (blocks hp), hp')
     \<and> lookup hp' = (lookup hp)(fresh_addr (blocks hp) \<mapsto> replicate nbytes None)
     \<and> avail hp' = avail hp - nbytes"
  by (auto simp: new_array_def lookup_def)

lemma delete_array_Inr:
  "lookup hp p = Some bs \<Longrightarrow>
   \<exists>hp'. delete_array hp p = Inr hp' \<and> lookup hp' = (lookup hp)(p := None)
     \<and> avail hp' = avail hp + length bs"
  by (auto simp: delete_array_def lookup_def map_of_remove)

lemma store_bytes_Inr:
  "lookup hp p = Some bs \<Longrightarrow> off + length vs \<le> length bs \<Longrightarrow>
   \<exists>hp'. store_bytes hp (Some p) off vs = Inr hp'
     \<and> lookup hp' = (lookup hp)(p \<mapsto> overwrite bs off vs)
     \<and> avail hp' = avail hp"
  by (auto simp: store_bytes_def lookup_set_block avail_set_block)

lemma store_bytes_frame:
  "store_bytes hp (Some q) off vs = Inr hp' \<Longrightarrow> a \<noteq> q \<Longrightarrow> lookup hp' a = lookup hp a"
  by (auto simp: store_bytes_def lookup_set_block split: option.splits if_splits)

lemma load_bytes_Inr:
  "lookup hp p = Some bs \<Longrightarrow> off + n \<le> length bs \<Longrightarrow>
   load_bytes hp (Some p) off n = Inr (take n (drop off bs))"
  by (simp add: load_bytes_def)

lemma memcpy_Inr:
  assumes "lookup hp s = Some sb" "lookup hp d = Some db" "s \<noteq> d"
    and "soff + n \<le> length sb" "doff + n \<le> length db"
  shows "\<exists>hp'. memcpy hp (Some d) doff (Some s) soff n = Inr hp'
     \<and> lookup hp' = (lookup hp)(d \<mapsto> overwrite db doff (take n (drop soff sb)))
     \<and> avail hp' = avail hp"
proof -
  have len: "length (take n (drop soff sb)) = n" using assms(4) by simp
  from store_bytes_Inr [OF assms(2), of doff "take n (drop soff sb)"] assms(5) len
  obtain hp' where "store_bytes hp (Some d) doff (take n (drop soff sb)) = Inr hp'"
     "lookup hp' = (lookup hp)(d \<mapsto> overwrite db doff (take n (drop soff sb)))"
     "avail hp' = avail hp" by auto
  then show ?thesis using assms by (simp add: memcpy_def load_bytes_Inr)
qed

section \<open>Sizes in 32 bits\<close>

lemma unat_mult4:
  "unat (a * b * c * d :: 32 word) = (unat a * unat b * unat c * unat d) mod 2 ^ 32"
  by (simp add: unat_word_ariths mod_simps)

lemma unat_mult3:
  "unat (a * b * c :: 32 word) = (unat a * unat b * unat c) mod 2 ^ 32"
  using unat_mult4 [of a b c 1] by simp

lemma int_div_32_8: "int_div 32 8 = 4"
  by (simp add: int_div_def)

lemma int_div_16_8: "int_div 16 8 = 2"
  by (simp add: int_div_def)

lemma int_div_8_8: "int_div 8 8 = 1"
  by (simp add: int_div_def)

lemma alloc_bytes_exact:
  assumes "unat sz = X * unat (int_div (bpc t) 8)"
  shows "alloc_bytes t sz = unat sz"
proof -
  have "bpc t = 32 \<Longrightarrow> unat (sz div 4) * 4 = unat sz"
    using assms by (simp add: int_div_32_8 unat_div)
  moreover have "bpc t = 16 \<Longrightarrow> unat (sz div 2) * 2 = unat sz"
    using assms by (simp add: int_div_16_8 unat_div)
  ultimately show ?thesis by (simp add: alloc_bytes_def)
qed

lemma elem_size_pos: "0 < elem_size t"
  by (simp add: elem_size_def)

lemma unat_int_div_bpc:
  "bpc t = 8 \<or> bpc t = 16 \<or> bpc t = 32 \<Longrightarrow> unat (int_div (bpc t) 8) = elem_size t"
  by (auto simp: elem_size_def int_div_32_8 int_div_16_8 int_div_8_8)

lemma alloc_bytes_whole:
  assumes "elem_size t dvd unat sz"
  shows "alloc_bytes t sz = unat sz"
proof -
  have "bpc t = 32 \<Longrightarrow> unat (sz div 4) * 4 = unat sz"
    using assms by (simp add: elem_size_def unat_div)
  moreover have "bpc t = 16 \<Longrightarrow> unat (sz div 2) * 2 = unat sz"
    using assms by (simp add: elem_size_def unat_div)
  ultimately show ?thesis by (simp add: alloc_bytes_def)
qed

section \<open>Allocation and release\<close>

lemma allocate_Inr:
  assumes "sz = (if sz0 = 0 then width t * height t * channels t * int_div (bpc t) 8 else sz0)"
    and "alloc_bytes t sz \<le> avail hp"
  shows "\<exists>hp'. allocate t sz0 hp
        = Inr (t\<lparr>data := Some (fresh_addr (blocks hp)), memoryManaged := 1, capacity := sz\<rparr>, hp')
     \<and> lookup hp' = (lookup hp)(fresh_addr (blocks hp) \<mapsto> replicate (alloc_bytes t sz) None)
     \<and> avail hp' = avail hp - alloc_bytes t sz"
  using new_array_Inr [OF assms(2)] assms(1) by (auto simp: allocate_def Let_def)

lemma allocate_fields:
  assumes "allocate t sz hp = Inr (t', hp')"
  shows "t' = t\<lparr>data := data t', memoryManaged := 1,
                 capacity := (if sz = 0 then width t * height t * channels t * int_div (bpc t) 8 else sz)\<rparr>"
  using assms by (auto simp: allocate_def Let_def split: sum.splits prod.splits)

lemma deallocate_Inr:
  assumes "lookup hp p = Some bs"
  shows "\<exists>hp'. deallocate t (Some p) hp = Inr (t\<lparr>capacity := 0, dataLength := 0\<rparr>, hp')
     \<and> lookup hp' = (lookup hp)(p := None) \<and> avail hp' = avail hp + length bs"
  using delete_array_Inr [OF assms] by (auto simp: deallocate_def)

lemma deallocate_keeps_data: "deallocate t buffer hp = Inr (t', hp') \<Longrightarrow> data t' = data t"
  by (auto simp: deallocate_def split: option.splits sum.splits if_splits)

lemma destructor_after_deallocate:
  "destructor (tile_2x2\<lparr>data := Some 0\<rparr>) heap_empty = Inl InvalidFree"
  by code_simp

section \<open>The scanline loop\<close>

lemma rows_0: "rows sb soff slen dlen 0 = []"
  by (simp add: rows_def)

lemma rows_Suc:
  "rows sb soff slen dlen (Suc k) = take dlen (drop soff sb) @ rows sb (soff + slen) slen dlen k"
proof -
  have "[0..<Suc k] = 0 # map Suc [0..<k]"
    by (simp add: upt_conv_Cons map_Suc_upt del: upt_Suc)
  then show ?thesis
    by (simp add: rows_def comp_def add.assoc del: upt_Suc)
qed

lemma length_rows:
  "\<forall>j<k. soff + j * slen + dlen \<le> length sb \<Longrightarrow> length (rows sb soff slen dlen k) = k * dlen"
proof (induction k arbitrary: soff)
  case 0
  then show ?case by (simp add: rows_0)
next
  case (Suc k)
  have "\<forall>j<k. soff + slen + j * slen + dlen \<le> length sb"
  proof (intro allI impI)
    fix j assume "j < k"
    then have "soff + Suc j * slen + dlen \<le> length sb" using Suc.prems by auto
    then show "soff + slen + j * slen + dlen \<le> length sb" by (simp add: add.assoc)
  qed
  then have "length (rows sb (soff + slen) slen dlen k) = k * dlen" by (rule Suc.IH)
  moreover have "soff + dlen \<le> length sb" using Suc.prems by force
  ultimately show ?case by (simp add: rows_Suc)
qed

lemma rows_top_left: "dlen \<le> slen \<Longrightarrow> rows sb 0 slen dlen k = top_left sb slen dlen k"
  by (simp add: rows_def top_left_def min_def)

lemma crop_loop_Inr:
  assumes "lookup hp s = Some sb" and "lookup hp d = Some db" and "s \<noteq> d"
    and "h - i = k"
    and "\<forall>j<k. soff + j * slen + dlen \<le> length sb"
    and "doff + k * dlen \<le> length db"
  shows "\<exists>hp'. crop_loop hp (Some d) doff (Some s) soff dlen slen h i = Inr hp'
     \<and> lookup hp' = (lookup hp)(d \<mapsto> overwrite db doff (rows sb soff slen dlen k))
     \<and> avail hp' = avail hp"
  using assms
proof (induction k arbitrary: hp db doff soff i)
  case 0
  then have "\<not> i < h" by simp
  moreover have "(lookup hp)(d \<mapsto> db) = lookup hp" using "0.prems"(2) by (auto simp: fun_eq_iff)
  ultimately show ?case using "0.prems" by (simp add: rows_0 overwrite_Nil crop_loop.simps)
next
  case (Suc k)
  then have ih: "i < h" by simp
  let ?row = "take dlen (drop soff sb)"
  have b0: "soff + dlen \<le> length sb" using Suc.prems(5) by force
  have lrow: "length ?row = dlen" using b0 by simp
  have d0: "doff + dlen \<le> length db" using Suc.prems(6) by simp
  from memcpy_Inr [OF Suc.prems(1) Suc.prems(2) Suc.prems(3) b0 d0]
  obtain hp1 where m: "memcpy hp (Some d) doff (Some s) soff dlen = Inr hp1"
    and l1: "lookup hp1 = (lookup hp)(d \<mapsto> overwrite db doff ?row)"
    and a1: "avail hp1 = avail hp" by blast
  have s1: "lookup hp1 s = Some sb" using l1 Suc.prems(1,3) by simp
  have d1: "lookup hp1 d = Some (overwrite db doff ?row)" using l1 by simp
  have k1: "h - Suc i = k" using Suc.prems(4) by simp
  have b1: "\<forall>j<k. soff + slen + j * slen + dlen \<le> length sb"
  proof (intro allI impI)
    fix j assume "j < k"
    then have "soff + Suc j * slen + dlen \<le> length sb" using Suc.prems(5) by auto
    then show "soff + slen + j * slen + dlen \<le> length sb" by (simp add: add.assoc)
  qed
  have lo: "length (overwrite db doff ?row) = length db"
    using d0 lrow by (simp add: length_overwrite)
  have d2: "doff + dlen + k * dlen \<le> length (overwrite db doff ?row)"
    using Suc.prems(6) lo by simp
  from Suc.IH [OF s1 d1 Suc.prems(3) k1 b1 d2]
  obtain hp2 where c: "crop_loop hp1 (Some d) (doff + dlen) (Some s) (soff + slen) dlen slen h (Suc i) = Inr hp2"
    and l2: "lookup hp2 = (lookup hp1)(d \<mapsto> overwrite (overwrite db doff ?row) (doff + dlen) (rows sb (soff + slen) slen dlen k))"
    and a2: "avail hp2 = avail hp1" by blast
  have lr: "length (rows sb (soff + slen) slen dlen k) = k * dlen"
    using b1 by (rule length_rows)
  have "overwrite (overwrite db doff ?row) (doff + length ?row) (rows sb (soff + slen) slen dlen k)
      = overwrite db doff (?row @ rows sb (soff + slen) slen dlen k)"
    using Suc.prems(6) lrow lr by (intro overwrite_append) simp
  then have ov: "overwrite (overwrite db doff ?row) (doff + dlen) (rows sb (soff + slen) slen dlen k)
      = overwrite db doff (rows sb soff slen dlen (Suc k))"
    using lrow by (simp add: rows_Suc)
  have "crop_loop hp (Some d) doff (Some s) soff dlen slen h i = Inr hp2"
    using ih m c by (subst crop_loop.simps) simp
  moreover have "lookup hp2 = (lookup hp)(d \<mapsto> overwrite db doff (rows sb soff slen dlen (Suc k)))"
    using l2 l1 ov by simp
  moreover have "avail hp2 = avail hp" using a1 a2 by simp
  ultimately show ?case by blast
qed

lemma crop_fields:
  assumes "crop t w h hp = Inr (t', hp')"
  shows "width t' = w \<and> height t' = h \<and> channels t' = channels t \<and> bpc t' = bpc t
    \<and> capacity t' = w * h * channels t * int_div (bpc t) 8
    \<and> dataLength t' = w * h * channels t * int_div (bpc t) 8"
  using assms
  by (auto simp: crop_def allocate_def deallocate_def Let_def
        split: sum.splits prod.splits option.splits if_splits)

section \<open>The pixel loops\<close>

lemma length_sample: "i * es + es \<le> length bs \<Longrightarrow> length (sample es bs i) = es"
  by (simp add: sample_def)

lemma copy_elem_Inr:
  assumes "lookup hp s = Some sb" "lookup hp d = Some db" "s \<noteq> d"
    and "i * es + es \<le> length sb" "j * es + es \<le> length db"
  shows "\<exists>hp'. copy_elem hp es (Some d) j (Some s) i = Inr hp'
     \<and> lookup hp' = (lookup hp)(d \<mapsto> overwrite db (j * es) (sample es sb i))
     \<and> avail hp' = avail hp"
proof -
  have "length (sample es sb i) = es" using assms(4) by (rule length_sample)
  then have "j * es + length (sample es sb i) \<le> length db" using assms(5) by simp
  from store_bytes_Inr [OF assms(2) this]
  show ?thesis using assms(1,4) by (simp add: copy_elem_def load_bytes_Inr sample_def)
qed

lemma length_concat_replicate: "length (concat (replicate m e)) = m * length e"
  by (induction m) simp_all

lemma trip_inner_Inr:
  assumes "lookup hp s = Some sb" and "lookup hp d = Some db" and "s \<noteq> d"
    and "elem_size t = es" and "data t = Some d"
    and "i * es + es \<le> length sb"
    and "unat n + 3 \<le> 2 ^ 32"
    and "(unat n + 3) * es \<le> length db"
    and "k + m = 3"
  shows "\<exists>hp'. trip_inner hp t (Some s) i n k = Inr hp'
     \<and> lookup hp' = (lookup hp)(d \<mapsto> overwrite db ((unat n + k) * es) (concat (replicate m (sample es sb i))))
     \<and> avail hp' = avail hp"
  using assms(1,2,8,9)
proof (induction m arbitrary: hp db k)
  case 0
  then have "(unat n + k) * es \<le> length db" by simp
  moreover have "(lookup hp)(d \<mapsto> db) = lookup hp" using "0.prems"(2) by (auto simp: fun_eq_iff)
  ultimately show ?case using "0.prems" by (simp add: trip_inner.simps overwrite_Nil)
next
  case (Suc m)
  let ?e = "sample es sb i"
  have k3: "k < 3" using Suc.prems(4) by simp
  have le: "length ?e = es" using assms(6) by (rule length_sample)
  have "unat n + k < 2 ^ 32" using assms(7) k3 by simp
  then have idx: "unat (n + word_of_nat k) = unat n + k"
    by (simp add: unat_word_ariths unat_of_nat)
  have "(unat n + k) * es + es = (unat n + Suc k) * es" by simp
  moreover have "(unat n + Suc k) * es \<le> (unat n + 3) * es"
    using k3 by (intro mult_le_mono1) simp
  ultimately have jb: "(unat n + k) * es + es \<le> length db" using Suc.prems(3) by simp
  from copy_elem_Inr [OF Suc.prems(1) Suc.prems(2) assms(3) assms(6) jb]
  obtain hp1 where c: "copy_elem hp es (Some d) (unat n + k) (Some s) i = Inr hp1"
    and l1: "lookup hp1 = (lookup hp)(d \<mapsto> overwrite db ((unat n + k) * es) ?e)"
    and a1: "avail hp1 = avail hp" by blast
  have s1: "lookup hp1 s = Some sb" using l1 Suc.prems(1) assms(3) by simp
  have d1: "lookup hp1 d = Some (overwrite db ((unat n + k) * es) ?e)" using l1 by simp
  have lo: "length (overwrite db ((unat n + k) * es) ?e) = length db"
    using jb le by (simp add: length_overwrite)
  have b1: "(unat n + 3) * es \<le> length (overwrite db ((unat n + k) * es) ?e)"
    using Suc.prems(3) lo by simp
  have km: "Suc k + m = 3" using Suc.prems(4) by simp
  from Suc.IH [OF s1 d1 b1 km]
  obtain hp2 where r: "trip_inner hp1 t (Some s) i n (Suc k) = Inr hp2"
    and l2: "lookup hp2 = (lookup hp1)(d \<mapsto> overwrite (overwrite db ((unat n + k) * es) ?e)
               ((unat n + Suc k) * es) (concat (replicate m ?e)))"
    and a2: "avail hp2 = avail hp1" by blast
  have "(unat n + k) * es + es + m * es = (unat n + (Suc k + m)) * es"
    by (simp add: algebra_simps)
  then have "(unat n + k) * es + length ?e + length (concat (replicate m ?e)) = (unat n + 3) * es"
    unfolding km by (simp add: le length_concat_replicate)
  then have "(unat n + k) * es + length ?e + length (concat (replicate m ?e)) \<le> length db"
    using Suc.prems(3) by simp
  then have "overwrite (overwrite db ((unat n + k) * es) ?e) ((unat n + k) * es + length ?e)
        (concat (replicate m ?e)) = overwrite db ((unat n + k) * es) (?e @ concat (replicate m ?e))"
    by (rule overwrite_append)
  then have ov: "overwrite (overwrite db ((unat n + k) * es) ?e) ((unat n + Suc k) * es)
        (concat (replicate m ?e)) = overwrite db ((unat n + k) * es) (concat (replicate (Suc m) ?e))"
    using le by (simp add: algebra_simps)
  have "trip_inner hp t (Some s) i n k = Inr hp2"
    using k3 c r idx assms(4,5) by (subst trip_inner.simps) simp
  moreover have "lookup hp2 = (lookup hp)(d \<mapsto> overwrite db ((unat n + k) * es) (concat (replicate (Suc m) ?e)))"
    using l2 l1 ov by simp
  moreover have "avail hp2 = avail hp" using a1 a2 by simp
  ultimately show ?case by blast
qed

lemma tripled_Nil: "tripled es sb len len = []"
  by (simp add: tripled_def)

lemma tripled_Cons:
  "i < len \<Longrightarrow> tripled es sb i len = concat (replicate 3 (sample es sb i)) @ tripled es sb (Suc i) len"
  by (simp add: tripled_def upt_conv_Cons)

lemma length_tripled:
  "len * es \<le> length sb \<Longrightarrow> i + m = len \<Longrightarrow> length (tripled es sb i len) = m * (3 * es)"
proof (induction m arbitrary: i)
  case 0
  then show ?case by (simp add: tripled_Nil)
next
  case (Suc m)
  then have il: "i < len" by simp
  then have "Suc i * es \<le> len * es" by (intro mult_le_mono1) simp
  then have "i * es + es \<le> length sb" using Suc.prems(1) by simp
  then have "length (sample es sb i) = es" by (rule length_sample)
  moreover have "length (tripled es sb (Suc i) len) = m * (3 * es)"
    using Suc.prems by (intro Suc.IH) simp_all
  ultimately show ?case using il by (simp add: tripled_Cons length_concat_replicate)
qed

lemma trip_loop_Inr:
  assumes "lookup hp s = Some sb" and "lookup hp d = Some db" and "s \<noteq> d"
    and "elem_size t = es" and "data t = Some d"
    and "len * es \<le> length sb"
    and "3 * len \<le> 2 ^ 32"
    and "3 * len * es \<le> length db"
    and "i + m = len"
    and "n = word_of_nat (3 * i)"
  shows "\<exists>hp'. trip_loop hp t (Some s) len i n = Inr hp'
     \<and> lookup hp' = (lookup hp)(d \<mapsto> overwrite db (3 * i * es) (tripled es sb i len))
     \<and> avail hp' = avail hp"
  using assms(1,2,8,9,10)
proof (induction m arbitrary: hp db i n)
  case 0
  then have "i = len" by simp
  moreover have "(lookup hp)(d \<mapsto> db) = lookup hp" using "0.prems"(2) by (auto simp: fun_eq_iff)
  ultimately show ?case using "0.prems" by (simp add: trip_loop.simps tripled_Nil overwrite_Nil)
next
  case (Suc m)
  let ?eee = "concat (replicate 3 (sample es sb i))"
  have il: "i < len" using Suc.prems(4) by simp
  then have i3: "3 * i + 3 \<le> 3 * len" by simp
  then have "3 * i < 2 ^ 32" using assms(7) by simp
  then have "unat (word_of_nat (3 * i) :: 32 word) = 3 * i"
    by (subst unat_of_nat) simp
  then have un: "unat n = 3 * i" unfolding Suc.prems(5) .
  have n3: "unat n + 3 \<le> 2 ^ 32" using un i3 assms(7) by simp
  have "Suc i * es \<le> len * es" using il by (intro mult_le_mono1) simp
  then have ib: "i * es + es \<le> length sb" using assms(6) by simp
  have i3es: "(3 * i + 3) * es \<le> 3 * len * es" using i3 by (rule mult_le_mono1)
  then have "(3 * i + 3) * es \<le> length db" using Suc.prems(3) by (rule le_trans)
  then have db3: "(unat n + 3) * es \<le> length db" unfolding un .
  have k0: "0 + 3 = (3::nat)" by simp
  from trip_inner_Inr [OF Suc.prems(1) Suc.prems(2) assms(3) assms(4) assms(5) ib n3 db3 k0]
  obtain hp1 where c: "trip_inner hp t (Some s) i n 0 = Inr hp1"
    and l1: "lookup hp1 = (lookup hp)(d \<mapsto> overwrite db (3 * i * es) ?eee)"
    and a1: "avail hp1 = avail hp" using un by auto
  have le: "length ?eee = 3 * es" using length_sample [OF ib] by (simp add: length_concat_replicate)
  have s1: "lookup hp1 s = Some sb" using l1 Suc.prems(1) assms(3) by simp
  have d1: "lookup hp1 d = Some (overwrite db (3 * i * es) ?eee)" using l1 by simp
  have "3 * i * es + length ?eee = (3 * i + 3) * es" using le by (simp add: algebra_simps)
  moreover have "(3 * i + 3) * es \<le> length db" using i3es Suc.prems(3) by (rule le_trans)
  ultimately have ob: "3 * i * es + length ?eee \<le> length db" by simp
  have lo: "length (overwrite db (3 * i * es) ?eee) = length db"
    using ob by (rule length_overwrite)
  have b1: "3 * len * es \<le> length (overwrite db (3 * i * es) ?eee)"
    using Suc.prems(3) lo by simp
  have im: "Suc i + m = len" using Suc.prems(4) by simp
  have n1: "n + 3 = word_of_nat (3 * Suc i)" using Suc.prems(5) by simp
  from Suc.IH [OF s1 d1 b1 im n1]
  obtain hp2 where r: "trip_loop hp1 t (Some s) len (Suc i) (n + 3) = Inr hp2"
    and l2: "lookup hp2 = (lookup hp1)(d \<mapsto> overwrite (overwrite db (3 * i * es) ?eee)
               (3 * Suc i * es) (tripled es sb (Suc i) len))"
    and a2: "avail hp2 = avail hp1" by blast
  have lt: "length (tripled es sb (Suc i) len) = m * (3 * es)"
    using assms(6) im by (rule length_tripled)
  have "3 * i * es + 3 * es + m * (3 * es) = 3 * (Suc i + m) * es"
    by (simp add: algebra_simps)
  then have "3 * i * es + length ?eee + length (tripled es sb (Suc i) len) = 3 * len * es"
    unfolding im le lt .
  then have "3 * i * es + length ?eee + length (tripled es sb (Suc i) len) \<le> length db"
    using Suc.prems(3) by simp
  then have "overwrite (overwrite db (3 * i * es) ?eee) (3 * i * es + length ?eee)
        (tripled es sb (Suc i) len) = overwrite db (3 * i * es) (?eee @ tripled es sb (Suc i) len)"
    by (rule overwrite_append)
  moreover have "3 * i * es + length ?eee = 3 * Suc i * es" using le by (simp add: algebra_simps)
  ultimately have ov: "overwrite (overwrite db (3 * i * es) ?eee) (3 * Suc i * es)
        (tripled es sb (Suc i) len) = overwrite db (3 * i * es) (tripled es sb i len)"
    using il by (simp add: tripled_Cons)
  have "trip_loop hp t (Some s) len i n = Inr hp2"
    using il c r by (subst trip_loop.simps) simp
  moreover have "lookup hp2 = (lookup hp)(d \<mapsto> overwrite db (3 * i * es) (tripled es sb i len))"
    using l2 l1 ov by simp
  moreover have "avail hp2 = avail hp" using a1 a2 by simp
  ultimately show ?case by blast
qed

lemma trip_inner_unroll:
  "trip_inner hp t buffer i n 0 =
     (case copy_elem hp (elem_size t) (data t) (unat n) buffer i of
        Inl e \<Rightarrow> Inl e
      | Inr hp1 \<Rightarrow>
          (case copy_elem hp1 (elem_size t) (data t) (unat (n + 1)) buffer i of
             Inl e \<Rightarrow> Inl e
           | Inr hp2 \<Rightarrow>
               (case copy_elem hp2 (elem_size t) (data t) (unat (n + 2)) buffer i of
                  Inl e \<Rightarrow> Inl e
                | Inr hp3 \<Rightarrow> Inr hp3)))"
  by (simp add: trip_inner.simps [of _ _ _ _ _ 0] trip_inner.simps [of _ _ _ _ _ "Suc 0"]
        trip_inner.simps [of _ _ _ _ _ "Suc (Suc 0)"] trip_inner.simps [of _ _ _ _ _ "Suc (Suc (Suc 0))"]
        numeral_3_eq_3 numeral_2_eq_2 split: sum.splits)

lemma tripled_split:
  assumes "i \<le> len"
  shows "tripled es sb 0 len = tripled es sb 0 i @ tripled es sb i len"
proof -
  have "[0..<i + (len - i)] = [0..<i] @ [i..<i + (len - i)]"
    by (rule upt_add_eq_append) simp
  then have "[0..<len] = [0..<i] @ [i..<len]" using assms by simp
  then show ?thesis by (simp add: tripled_def)
qed

lemma sample_three:
  assumes "length e = es" and "k < 3"
  shows "take es (drop (k * es) (concat (replicate 3 e) @ rest)) = e"
proof -
  have "k = 0 \<or> k = 1 \<or> k = 2" using assms(2) by auto
  then show ?thesis using assms(1) by (auto simp: numeral_3_eq_3)
qed

lemma sample_tripled:
  assumes "len * es \<le> length sb" and "i < len" and "k < 3"
  shows "sample es (tripled es sb 0 len) (3 * i + k) = sample es sb i"
proof -
  have "i * es \<le> len * es" using assms(2) by (intro mult_le_mono1) simp
  then have "i * es \<le> length sb" using assms(1) by (rule le_trans)
  then have l0: "length (tripled es sb 0 i) = i * (3 * es)"
    by (rule length_tripled) simp
  have "Suc i * es \<le> len * es" using assms(2) by (intro mult_le_mono1) simp
  then have "Suc i * es \<le> length sb" using assms(1) by (rule le_trans)
  then have le: "length (sample es sb i) = es" by (intro length_sample) simp
  have sp: "tripled es sb 0 len = tripled es sb 0 i @ tripled es sb i len"
    using assms(2) by (intro tripled_split) simp
  have off: "(3 * i + k) * es = i * (3 * es) + k * es" by (simp add: algebra_simps)
  have dr: "drop ((3 * i + k) * es) (tripled es sb 0 len) = drop (k * es) (tripled es sb i len)"
    unfolding off sp using l0 by simp
  have "sample es (tripled es sb 0 len) (3 * i + k) = take es (drop (k * es) (tripled es sb i len))"
    unfolding sample_def dr ..
  also have "\<dots> = take es (drop (k * es)
        (concat (replicate 3 (sample es sb i)) @ tripled es sb (Suc i) len))"
    by (simp only: tripled_Cons [OF assms(2)])
  also have "\<dots> = sample es sb i" using le assms(3) by (rule sample_three)
  finally show ?thesis .
qed

lemma triplicate_noop: "channels t \<noteq> 1 \<Longrightarrow> triplicate t hp = Inr (t, hp)"
  by (simp add: triplicate_def)

lemma triplicate_expand:
  assumes ch: "channels t = 1"
    and bp: "bpc t = 8 \<or> bpc t = 16 \<or> bpc t = 32"
    and dat: "data t = Some p" and blk: "lookup hp p = Some sb"
    and holds: "unat (width t) * unat (height t) * elem_size t \<le> length sb"
    and fits: "3 * (unat (width t) * unat (height t) * elem_size t) < 2 ^ 32"
    and room: "3 * (unat (width t) * unat (height t) * elem_size t) \<le> avail hp"
  shows "\<exists>hp' q.
      triplicate t hp =
        Inr (t\<lparr>channels := 3, data := Some q, memoryManaged := 1,
               capacity := width t * height t, dataLength := width t * height t\<rparr>, hp')
      \<and> q \<noteq> p
      \<and> lookup hp' q = Some (tripled (elem_size t) sb 0 (unat (width t) * unat (height t)))
      \<and> lookup hp' p = (if memoryManaged t \<noteq> 0 then None else Some sb)"
proof -
  define es where "es = elem_size t"
  define N where "N = unat (width t) * unat (height t)"
  define q where "q = fresh_addr (blocks hp)"
  define len where "len = width t * height t"
  define sz where "sz = width t * height t * 3 * int_div (bpc t) 8"
  let ?t0 = "t\<lparr>channels := 3\<rparr>"
  let ?t1 = "?t0\<lparr>data := Some q, memoryManaged := 1, capacity := sz\<rparr>"
  have es1: "1 \<le> es" using elem_size_pos [of t] by (simp add: es_def)
  have B: "unat (int_div (bpc t) 8) = es" using bp unfolding es_def by (rule unat_int_div_bpc)
  have tot: "3 * (N * es) < 2 ^ 32" "N * es \<le> length sb" "3 * (N * es) \<le> avail hp"
    using fits holds room by (simp_all only: N_def es_def)
  have "N * 1 \<le> N * es" using es1 by (rule mult_le_mono2)
  then have NNes: "N \<le> N * es" by simp
  then have "3 * N \<le> 3 * (N * es)" by simp
  then have N3: "3 * N < 2 ^ 32" using tot(1) by (rule le_less_trans)
  then have N32: "N < 2 ^ 32" by simp
  have ulen: "unat len = N"
    using N32 by (simp add: len_def N_def unat_word_ariths)
  have "unat sz = (unat (width t) * unat (height t) * 3 * es) mod 2 ^ 32"
    using unat_mult4 [of "width t" "height t" 3 "int_div (bpc t) 8"] by (simp add: sz_def B)
  moreover have "unat (width t) * unat (height t) * 3 * es = 3 * (N * es)"
    by (simp add: N_def mult_ac)
  ultimately have usz: "unat sz = 3 * (N * es)" using tot(1) by simp
  have xe: "unat sz = (3 * N) * es" using usz by (simp only: mult.assoc)
  have bt0: "bpc ?t0 = bpc t" by simp
  have "unat sz = (3 * N) * unat (int_div (bpc ?t0) 8)" unfolding bt0 B by (rule xe)
  then have "alloc_bytes ?t0 sz = unat sz" by (rule alloc_bytes_exact)
  then have ab: "alloc_bytes ?t0 sz = 3 * (N * es)" unfolding usz .
  have szdef: "sz = (if (0::32 word) = 0 then width ?t0 * height ?t0 * channels ?t0 * int_div (bpc ?t0) 8 else 0)"
    by (simp add: sz_def)
  have ab_room: "alloc_bytes ?t0 sz \<le> avail hp" using ab tot(3) by simp
  from allocate_Inr [OF szdef ab_room]
  obtain hp1 where al: "allocate ?t0 0 hp = Inr (?t1, hp1)"
    and l1: "lookup hp1 = (lookup hp)(q \<mapsto> replicate (3 * (N * es)) None)"
    unfolding q_def ab by blast
  have qp: "q \<noteq> p" using blk lookup_fresh [of hp] unfolding q_def by auto
  then have pq: "p \<noteq> q" by simp
  have s1: "lookup hp1 p = Some sb" using l1 qp blk by simp
  have d1: "lookup hp1 q = Some (replicate (3 * (N * es)) None)" using l1 by simp
  have e1: "elem_size ?t1 = es" by (simp add: elem_size_def es_def)
  have dt1: "data ?t1 = Some q" by simp
  have N3le: "3 * N \<le> 2 ^ 32" using N3 by simp
  have dbl: "3 * N * es \<le> length (replicate (3 * (N * es)) (None :: byte))" by (simp add: mult_ac)
  have n0: "(0 :: 32 word) = word_of_nat (3 * 0)" by simp
  have i0: "0 + N = N" by simp
  from trip_loop_Inr [OF s1 d1 pq e1 dt1 tot(2) N3le dbl i0 n0]
  obtain hp2 where tl: "trip_loop hp1 ?t1 (Some p) N 0 0 = Inr hp2"
    and l2: "lookup hp2 = (lookup hp1)(q \<mapsto> overwrite (replicate (3 * (N * es)) None) 0 (tripled es sb 0 N))"
    by auto
  have "length (tripled es sb 0 N) = N * (3 * es)"
    using tot(2) i0 by (rule length_tripled)
  then have "length (tripled es sb 0 N) = length (replicate (3 * (N * es)) (None :: byte))"
    by (simp add: mult_ac)
  then have "overwrite (replicate (3 * (N * es)) None) 0 (tripled es sb 0 N) = tripled es sb 0 N"
    by (rule overwrite_all)
  then have d2: "lookup hp2 q = Some (tripled es sb 0 N)" using l2 by simp
  have s2: "lookup hp2 p = Some sb" using l2 s1 pq by simp
  obtain t2 hp3 where de: "(if memoryManaged t \<noteq> 0 then deallocate ?t1 (Some p) hp2 else Inr (?t1, hp2)) = Inr (t2, hp3)"
    and t2: "t2\<lparr>capacity := len, dataLength := len\<rparr>
        = t\<lparr>channels := 3, data := Some q, memoryManaged := 1, capacity := len, dataLength := len\<rparr>"
    and l3: "lookup hp3 q = Some (tripled es sb 0 N)"
    and l3p: "lookup hp3 p = (if memoryManaged t \<noteq> 0 then None else Some sb)"
  proof (cases "memoryManaged t \<noteq> 0")
    case True
    from deallocate_Inr [OF s2, of ?t1] obtain hp3 where
      "deallocate ?t1 (Some p) hp2 = Inr (?t1\<lparr>capacity := 0, dataLength := 0\<rparr>, hp3)"
      "lookup hp3 = (lookup hp2)(p := None)" by blast
    then show ?thesis using True d2 qp by (intro that [of "?t1\<lparr>capacity := 0, dataLength := 0\<rparr>" hp3]) simp_all
  next
    case False
    then show ?thesis using d2 s2 by (intro that [of ?t1 hp2]) simp_all
  qed
  have "triplicate t hp =
        Inr (t\<lparr>channels := 3, data := Some q, memoryManaged := 1, capacity := len, dataLength := len\<rparr>, hp3)"
    using ch al tl de t2 dat ulen
    by (simp add: triplicate_def Let_def len_def [symmetric])
  then show ?thesis
    using qp l3 l3p unfolding len_def es_def N_def by blast
qed

lemma triplicate_length_is_pixel_count:
  "triplicate tile_4x4 heap_4x4 = Inr (t', hp') \<Longrightarrow> dataLength t' = 16 \<and> implied_size t' = 48"
  by (auto simp: triplicate_def allocate_def deallocate_def Let_def tile_4x4_def RawTile_ctor_def implied_size_def int_div_def
        split: sum.splits prod.splits option.splits if_splits)

section \<open>Copies and moves\<close>

lemma copy_data_Inr:
  assumes dat: "data tile = Some p" and blk: "lookup hp p = Some sb"
    and pos: "0 < dataLength tile"
    and holds: "unat (dataLength tile) \<le> length sb"
    and whole: "elem_size this dvd unat (dataLength tile)"
    and room: "unat (dataLength tile) \<le> avail hp"
  shows "\<exists>hp' q.
      copy_data this tile hp =
        Inr (this\<lparr>data := Some q, memoryManaged := 1, capacity := dataLength tile\<rparr>, hp')
      \<and> q \<noteq> p \<and> lookup hp q = None
      \<and> lookup hp' = (lookup hp)(q \<mapsto> take (unat (dataLength tile)) sb)"
proof -
  define dl where "dl = dataLength tile"
  define q where "q = fresh_addr (blocks hp)"
  have ab: "alloc_bytes this dl = unat dl" using whole unfolding dl_def by (rule alloc_bytes_whole)
  have nz: "dl \<noteq> 0" using pos by (simp add: dl_def)
  then have szdef: "dl = (if dl = 0 then width this * height this * channels this * int_div (bpc this) 8 else dl)"
    by simp
  have ab_room: "alloc_bytes this dl \<le> avail hp" using ab room by (simp add: dl_def)
  from allocate_Inr [OF szdef ab_room]
  obtain hp1 where al: "allocate this dl hp = Inr (this\<lparr>data := Some q, memoryManaged := 1, capacity := dl\<rparr>, hp1)"
    and l1: "lookup hp1 = (lookup hp)(q \<mapsto> replicate (unat dl) None)"
    unfolding q_def ab by blast
  have qn: "lookup hp q = None" unfolding q_def by (rule lookup_fresh)
  then have qp: "q \<noteq> p" using blk by auto
  then have pq: "p \<noteq> q" by simp
  have s1: "lookup hp1 p = Some sb" using l1 qp blk by simp
  have d1: "lookup hp1 q = Some (replicate (unat dl) None)" using l1 by simp
  have sbnd: "0 + unat dl \<le> length sb" using holds by (simp add: dl_def)
  have dbnd: "0 + unat dl \<le> length (replicate (unat dl) (None :: byte))" by simp
  from memcpy_Inr [OF s1 d1 pq sbnd dbnd]
  obtain hp2 where mc: "memcpy hp1 (Some q) 0 (Some p) 0 (unat dl) = Inr hp2"
    and l2: "lookup hp2 = (lookup hp1)(q \<mapsto> overwrite (replicate (unat dl) None) 0 (take (unat dl) (drop 0 sb)))"
    by blast
  have "length (take (unat dl) sb) = length (replicate (unat dl) (None :: byte))"
    using holds by (simp add: dl_def)
  then have "overwrite (replicate (unat dl) None) 0 (take (unat dl) sb) = take (unat dl) sb"
    by (rule overwrite_all)
  then have l2': "lookup hp2 = (lookup hp)(q \<mapsto> take (unat dl) sb)"
    using l2 l1 by simp
  have "copy_data this tile hp = Inr (this\<lparr>data := Some q, memoryManaged := 1, capacity := dl\<rparr>, hp2)"
    using al mc dat by (simp add: copy_data_def dl_def [symmetric])
  then show ?thesis using qp qn l2' unfolding dl_def by blast
qed

lemma copy_ctor_this:
  "\<lparr>filename = filename tile, width = width tile, height = height tile,
             channels = channels tile, bpc = bpc tile, sampleType = sampleType tile,
             compressionType = compressionType tile, quality = quality tile,
             timestamp = timestamp tile, tileNum = tileNum tile,
             resolution = resolution tile, hSequence = hSequence tile,
             vSequence = vSequence tile, capacity = capacity tile,
             dataLength = dataLength tile, memoryManaged = memoryManaged tile, data = None\<rparr>
    = (tile\<lparr>data := None\<rparr> :: RawTile)"
  by simp

lemma copy_assign_this:
  "this\<lparr>tileNum := tileNum tile, resolution := resolution tile,
                    hSequence := hSequence tile, vSequence := vSequence tile,
                    compressionType := compressionType tile, quality := quality tile,
                    filename := filename tile, timestamp := timestamp tile,
                    memoryManaged := memoryManaged tile, dataLength := dataLength tile,
                    width := width tile, height := height tile, channels := channels tile,
                    bpc := bpc tile, sampleType := sampleType tile,
                    capacity := capacity tile\<rparr>
    = (tile\<lparr>data := data this\<rparr> :: RawTile)"
  by (cases this, cases tile) simp

lemma copy_general:
  assumes dat: "data tile = Some p" and blk: "lookup hp p = Some sb"
    and pos: "0 < dataLength tile"
    and holds: "unat (dataLength tile) \<le> length sb"
    and whole: "elem_size tile dvd unat (dataLength tile)"
    and room: "unat (dataLength tile) \<le> avail hp"
  shows "(\<exists>hp' q.
      copy_ctor tile hp =
        Inr (tile\<lparr>data := Some q, memoryManaged := 1, capacity := dataLength tile\<rparr>, hp')
      \<and> q \<noteq> p \<and> lookup hp q = None
      \<and> lookup hp' q = Some (take (unat (dataLength tile)) sb)
      \<and> (\<forall>a. a \<noteq> q \<longrightarrow> lookup hp' a = lookup hp a)
      \<and> (\<forall>off vs hp''. store_bytes hp' (Some q) off vs = Inr hp'' \<longrightarrow> lookup hp'' p = Some sb))
    \<and> (\<exists>hp' q.
      copy_assign False this tile hp =
        Inr (tile\<lparr>data := Some q, memoryManaged := 1, capacity := dataLength tile\<rparr>, hp')
      \<and> q \<noteq> p \<and> lookup hp q = None
      \<and> lookup hp' q = Some (take (unat (dataLength tile)) sb)
      \<and> (\<forall>a. a \<noteq> q \<longrightarrow> lookup hp' a = lookup hp a)
      \<and> (\<forall>off vs hp''. store_bytes hp' (Some q) off vs = Inr hp'' \<longrightarrow> lookup hp'' p = Some sb))"
proof -
  have iso: "\<exists>hp' q. copy_data this0 tile hp = Inr (tile\<lparr>data := Some q, memoryManaged := 1, capacity := dataLength tile\<rparr>, hp')
      \<and> q \<noteq> p \<and> lookup hp q = None
      \<and> lookup hp' q = Some (take (unat (dataLength tile)) sb)
      \<and> (\<forall>a. a \<noteq> q \<longrightarrow> lookup hp' a = lookup hp a)
      \<and> (\<forall>off vs hp''. store_bytes hp' (Some q) off vs = Inr hp'' \<longrightarrow> lookup hp'' p = Some sb)"
    if "this0 = tile\<lparr>data := d\<rparr>" for this0 d
  proof -
    have "elem_size this0 = elem_size tile" using that by (simp add: elem_size_def)
    then have w0: "elem_size this0 dvd unat (dataLength tile)" using whole by simp
    from copy_data_Inr [OF dat blk pos holds w0 room]
    obtain hp' q where c: "copy_data this0 tile hp =
        Inr (this0\<lparr>data := Some q, memoryManaged := 1, capacity := dataLength tile\<rparr>, hp')"
      and qp: "q \<noteq> p" and qn: "lookup hp q = None"
      and l: "lookup hp' = (lookup hp)(q \<mapsto> take (unat (dataLength tile)) sb)" by blast
    have r: "this0\<lparr>data := Some q, memoryManaged := 1, capacity := dataLength tile\<rparr>
        = tile\<lparr>data := Some q, memoryManaged := 1, capacity := dataLength tile\<rparr>"
      using that by simp
    have sp: "lookup hp' p = Some sb" using l qp blk by simp
    have "\<forall>off vs hp''. store_bytes hp' (Some q) off vs = Inr hp'' \<longrightarrow> lookup hp'' p = Some sb"
      using store_bytes_frame [of hp' q _ _ _ p] qp sp by auto
    then show ?thesis using c r qp qn l by auto
  qed
  have "copy_ctor tile hp = copy_data (tile\<lparr>data := None\<rparr>) tile hp"
    using dat pos by (simp add: copy_ctor_def Let_def copy_ctor_this)
  moreover have "copy_assign False this tile hp = copy_data (tile\<lparr>data := data this\<rparr>) tile hp"
    using dat pos by (simp add: copy_assign_def Let_def copy_assign_this)
  ultimately show ?thesis using iso [of "tile\<lparr>data := None\<rparr>" None] iso [of "tile\<lparr>data := data this\<rparr>" "data this"]
    by simp
qed

lemma copy_odd_length_overflows: "copy_ctor tile_odd heap_odd = Inl OutOfBounds"
  by code_simp

lemma move_assign_deletes_this:
  "data this \<noteq> None \<Longrightarrow> 0 < dataLength this \<Longrightarrow>
   \<exists>e. move_assign False this tile hp = Inl e"
  by (auto simp: move_assign_def split: sum.splits)

lemma move_ctor_owner:
  "memoryManaged tile = 1 \<Longrightarrow>
   move_ctor tile hp =
     Inr ((tile, tile\<lparr>data := None, dataLength := 0, capacity := 0, memoryManaged := 0\<rparr>), hp)"
  by (simp add: move_ctor_def Let_def)

lemma move_ctor_borrowed:
  assumes "memoryManaged tile \<noteq> 1"
    and "data tile = Some p" and "lookup hp p = Some sb" and "0 < dataLength tile"
    and "unat (dataLength tile) \<le> length sb"
    and "elem_size tile dvd unat (dataLength tile)"
    and "unat (dataLength tile) \<le> avail hp"
  shows "\<exists>hp' q.
      move_ctor tile hp =
        Inr ((tile\<lparr>data := Some q, memoryManaged := 1, capacity := dataLength tile\<rparr>, tile), hp')
      \<and> q \<noteq> p \<and> lookup hp q = None
      \<and> lookup hp' = (lookup hp)(q \<mapsto> take (unat (dataLength tile)) sb)"
proof -
  have "elem_size (tile\<lparr>data := None\<rparr>) = elem_size tile" by (simp add: elem_size_def)
  then have "elem_size (tile\<lparr>data := None\<rparr>) dvd unat (dataLength tile)"
    using assms(6) by simp
  from copy_data_Inr [OF assms(2) assms(3) assms(4) assms(5) this assms(7)]
  obtain hp' q where "copy_data (tile\<lparr>data := None\<rparr>) tile hp =
        Inr (tile\<lparr>data := Some q, memoryManaged := 1, capacity := dataLength tile\<rparr>, hp')"
    and "q \<noteq> p" and "lookup hp q = None"
    and "lookup hp' = (lookup hp)(q \<mapsto> take (unat (dataLength tile)) sb)"
    by auto
  then show ?thesis
    using assms(1,2,4) by (auto simp: move_ctor_def Let_def copy_ctor_this)
qed

lemma move_assign_owner:
  "memoryManaged tile = 1 \<Longrightarrow> data this = None \<or> dataLength this = 0 \<Longrightarrow>
   move_assign False this tile hp =
     Inr ((tile, tile\<lparr>filename := [], data := None, dataLength := 0, capacity := 0,
                       memoryManaged := 0\<rparr>), hp)"
  by (cases this, cases tile) (auto simp: move_assign_def Let_def)

lemma moved_from_destructor:
  "destructor (tile\<lparr>data := None, dataLength := 0, capacity := 0, memoryManaged := 0\<rparr>) hp
     = Inr (tile\<lparr>data := None, dataLength := 0, capacity := 0, memoryManaged := 0\<rparr>, hp)"
  by (simp add: destructor_def)

section \<open>The claims\<close>

subsection \<open>Lengths after a reshape or an allocation\<close>

text \<open>
  Claim C1, as amended. After a successful \<open>crop\<close> the stored \<open>dataLength\<close> and
  \<open>capacity\<close> both equal \<open>width * height * channels * (bpc/8)\<close> of the values after the
  operation, in 32-bit unsigned arithmetic. After a successful \<open>allocate\<close> with the default
  size it is \<open>capacity\<close> that equals this product; \<open>dataLength\<close> keeps the value it had.
  Nothing is said here about \<open>triplicate\<close>.
\<close>

theorem crop_allocate_lengths:
  "(crop t w h hp = Inr (t', hp') \<longrightarrow>
      dataLength t' = implied_size t' \<and> capacity t' = implied_size t')
   \<and> (allocate u 0 hq = Inr (u', hq') \<longrightarrow>
      capacity u' = implied_size u' \<and> dataLength u' = dataLength u)"
proof (intro conjI impI)
  assume c: "crop t w h hp = Inr (t', hp')"
  show "dataLength t' = implied_size t'" using crop_fields [OF c] by (simp add: implied_size_def)
  show "capacity t' = implied_size t'" using crop_fields [OF c] by (simp add: implied_size_def)
next
  assume a: "allocate u 0 hq = Inr (u', hq')"
  have e: "u' = u\<lparr>data := data u', memoryManaged := 1,
                 capacity := width u * height u * channels u * int_div (bpc u) 8\<rparr>"
    using allocate_fields [OF a] by simp
  show "capacity u' = implied_size u'" by (subst (1 2) e) (simp add: implied_size_def)
  show "dataLength u' = dataLength u" by (subst e) simp
qed

theorem crop_allocate_lengths_witness:
  "crop tile_4x4 2 2 heap_4x4
     = Inr (tile_4x4\<lparr>width := 2, height := 2, capacity := 4, dataLength := 4, data := Some 1\<rparr>,
            \<lparr>blocks = [(1, [Some 0, Some 1, Some 4, Some 5])], avail = 112\<rparr>)
   \<and> dataLength (tile_4x4\<lparr>width := 2, height := 2, capacity := 4, dataLength := 4, data := Some 1\<rparr>)
       = implied_size (tile_4x4\<lparr>width := 2, height := 2, capacity := 4, dataLength := 4, data := Some 1\<rparr>)
   \<and> capacity (tile_4x4\<lparr>width := 2, height := 2, capacity := 4, dataLength := 4, data := Some 1\<rparr>)
       = implied_size (tile_4x4\<lparr>width := 2, height := 2, capacity := 4, dataLength := 4, data := Some 1\<rparr>)
   \<and> allocate tile_2x2 0 heap_empty
     = Inr (tile_2x2\<lparr>data := Some 0, memoryManaged := 1, capacity := 4\<rparr>,
            \<lparr>blocks = [(0, [None, None, None, None])], avail = 96\<rparr>)
   \<and> capacity (tile_2x2\<lparr>data := Some 0, memoryManaged := 1, capacity := 4\<rparr>)
       = implied_size (tile_2x2\<lparr>data := Some 0, memoryManaged := 1, capacity := 4\<rparr>)
   \<and> dataLength (tile_2x2\<lparr>data := Some 0, memoryManaged := 1, capacity := 4\<rparr>) = dataLength tile_2x2"
proof -
  have c: "crop tile_4x4 2 2 heap_4x4
     = Inr (tile_4x4\<lparr>width := 2, height := 2, capacity := 4, dataLength := 4, data := Some 1\<rparr>,
            \<lparr>blocks = [(1, [Some 0, Some 1, Some 4, Some 5])], avail = 112\<rparr>)"
    by code_simp
  have a: "allocate tile_2x2 0 heap_empty
     = Inr (tile_2x2\<lparr>data := Some 0, memoryManaged := 1, capacity := 4\<rparr>,
            \<lparr>blocks = [(0, [None, None, None, None])], avail = 96\<rparr>)"
    by code_simp
  show ?thesis
    using crop_allocate_lengths [of tile_4x4 2 2 heap_4x4
        "tile_4x4\<lparr>width := 2, height := 2, capacity := 4, dataLength := 4, data := Some 1\<rparr>"
        "\<lparr>blocks = [(1, [Some 0, Some 1, Some 4, Some 5])], avail = 112\<rparr>"
        tile_2x2 heap_empty
        "tile_2x2\<lparr>data := Some 0, memoryManaged := 1, capacity := 4\<rparr>"
        "\<lparr>blocks = [(0, [None, None, None, None])], avail = 96\<rparr>"] c a
    by blast
qed

text \<open>
  Claim C1 as it is written fails for the allocation: a fresh 2 by 2 tile of one 8-bit
  channel, after \<open>allocate()\<close>, implies 4 bytes and stores the \<open>dataLength\<close> 0.
\<close>

theorem allocate_dataLength_counterexample:
  "allocate tile_2x2 0 heap_empty
     = Inr (tile_2x2\<lparr>data := Some 0, memoryManaged := 1, capacity := 4\<rparr>,
            \<lparr>blocks = [(0, [None, None, None, None])], avail = 96\<rparr>)
   \<and> dataLength (tile_2x2\<lparr>data := Some 0, memoryManaged := 1, capacity := 4\<rparr>) = 0
   \<and> implied_size (tile_2x2\<lparr>data := Some 0, memoryManaged := 1, capacity := 4\<rparr>) = 4
   \<and> dataLength (tile_2x2\<lparr>data := Some 0, memoryManaged := 1, capacity := 4\<rparr>)
       \<noteq> implied_size (tile_2x2\<lparr>data := Some 0, memoryManaged := 1, capacity := 4\<rparr>)"
  by code_simp

subsection \<open>Crop\<close>

text \<open>
  Claim C2, as amended. Let the buffer of a tile be a live block that holds \<open>height\<close>
  scanlines of \<open>width * channels * (bpc/8)\<close> bytes, let \<open>w \<le> width\<close> and \<open>h \<le> height\<close>,
  and let neither the size of a scanline, \<open>width * channels * (bpc/8)\<close>, nor the size of
  the result, \<open>w * h * channels * (bpc/8)\<close>, reach \<open>2 ^ 32\<close>. Then, when the memory system
  can supply the new buffer, \<open>crop w h\<close> returns; the new buffer is another block whose
  first \<open>h\<close> scanlines of \<open>w * channels * (bpc/8)\<close> bytes are, byte for byte and in order,
  the top-left rectangle of the old buffer; \<open>width = w\<close>, \<open>height = h\<close>, and \<open>capacity =
  dataLength = w * h * channels * (bpc/8)\<close>. The old block is released exactly when the tile
  owned it. The witness is the 4 by 4 tile of the specification, cropped to 2 by 2.
\<close>

theorem crop_top_left_rectangle:
  assumes dat: "data t = Some p" and blk: "lookup hp p = Some sb"
    and holds: "unat (height t) * scanline_bytes t (width t) \<le> length sb"
    and w: "w \<le> width t" and h: "h \<le> height t"
    and fits_row: "scanline_bytes t (width t) < 2 ^ 32"
    and fits_out: "unat h * scanline_bytes t w < 2 ^ 32"
    and room: "alloc_bytes t (if w * h * channels t * int_div (bpc t) 8 = 0 then implied_size t
                               else w * h * channels t * int_div (bpc t) 8) \<le> avail hp"
  shows "\<exists>hp' q bs'.
      crop t w h hp =
        Inr (t\<lparr>data := Some q, memoryManaged := 1,
               capacity := w * h * channels t * int_div (bpc t) 8,
               dataLength := w * h * channels t * int_div (bpc t) 8,
               width := w, height := h\<rparr>, hp')
      \<and> unat (w * h * channels t * int_div (bpc t) 8) = unat h * scanline_bytes t w
      \<and> q \<noteq> p
      \<and> lookup hp' q = Some bs'
      \<and> take (unat h * scanline_bytes t w) bs'
          = top_left sb (scanline_bytes t (width t)) (scanline_bytes t w) (unat h)
      \<and> lookup hp' p = (if memoryManaged t \<noteq> 0 then None else Some sb)"
proof -
  define C where "C = unat (channels t)"
  define B where "B = unat (int_div (bpc t) 8)"
  define W where "W = unat (width t)"
  define H where "H = unat (height t)"
  define len where "len = w * h * channels t * int_div (bpc t) 8"
  define sz where "sz = (if len = 0 then implied_size t else len)"
  define q where "q = fresh_addr (blocks hp)"
  define k where "k = unat h"
  define dl where "dl = unat (w * channels t * int_div (bpc t) 8)"
  define sl where "sl = unat (width t * channels t * int_div (bpc t) 8)"
  define D where "D = unat w * C * B"
  define S where "S = W * C * B"
  have wW: "unat w \<le> W" using w by (simp add: W_def word_le_nat_alt)
  have hH: "k \<le> H" using h by (simp add: H_def k_def word_le_nat_alt)
  have S32: "S < 2 ^ 32" using fits_row by (simp add: S_def scanline_bytes_def C_def B_def W_def)
  have kD32: "k * D < 2 ^ 32"
    using fits_out by (simp add: D_def k_def scanline_bytes_def C_def B_def)
  have HS: "H * S \<le> length sb"
    using holds by (simp add: S_def H_def scanline_bytes_def C_def B_def W_def)
  have "unat w * C \<le> W * C" using wW by (rule mult_le_mono1)
  then have "unat w * C * B \<le> W * C * B" by (rule mult_le_mono1)
  then have DS: "D \<le> S" by (simp only: D_def S_def)
  then have D32: "D < 2 ^ 32" using S32 by (rule le_less_trans)
  have sl_eq: "sl = S"
  proof -
    have "sl = (W * C * B) mod 2 ^ 32" by (simp add: sl_def unat_mult3 C_def B_def W_def)
    then show ?thesis using S32 by (simp add: S_def)
  qed
  have dl_eq: "dl = D"
  proof -
    have "dl = (unat w * C * B) mod 2 ^ 32" by (simp add: dl_def unat_mult3 C_def B_def)
    then show ?thesis using D32 by (simp add: D_def)
  qed
  have ulen: "unat len = k * D"
  proof -
    have "unat len = (unat w * k * C * B) mod 2 ^ 32"
      by (simp add: len_def unat_mult4 C_def B_def k_def)
    moreover have "unat w * k * C * B = k * D" by (simp add: D_def mult_ac)
    ultimately show ?thesis using kD32 by simp
  qed
  have ab_room: "alloc_bytes t sz \<le> avail hp" using room unfolding sz_def len_def .
  have kdl_le: "k * D \<le> alloc_bytes t sz"
  proof (cases "len = 0")
    case True
    then have "k * D = 0" using ulen by simp
    then show ?thesis by (simp only: le0)
  next
    case False
    have "unat len = (k * (unat w * C)) * B" using ulen by (simp add: D_def mult_ac)
    then have "unat len = (k * (unat w * C)) * unat (int_div (bpc t) 8)" by (simp only: B_def)
    then have "alloc_bytes t len = unat len" by (rule alloc_bytes_exact)
    then show ?thesis using False ulen by (simp add: sz_def)
  qed
  have szdef: "sz = (if len = 0 then width t * height t * channels t * int_div (bpc t) 8 else len)"
    by (simp add: sz_def implied_size_def)
  from allocate_Inr [OF szdef ab_room]
  obtain hp1 where al: "allocate t len hp = Inr (t\<lparr>data := Some q, memoryManaged := 1, capacity := sz\<rparr>, hp1)"
    and l1: "lookup hp1 = (lookup hp)(q \<mapsto> replicate (alloc_bytes t sz) None)"
    unfolding q_def by blast
  have qp: "q \<noteq> p" using blk lookup_fresh [of hp] unfolding q_def by auto
  have s1: "lookup hp1 p = Some sb" using l1 qp blk by simp
  have d1: "lookup hp1 q = Some (replicate (alloc_bytes t sz) None)" using l1 by simp
  have pq: "p \<noteq> q" using qp by simp
  have rf1: "\<forall>j<k. 0 + j * S + D \<le> length sb"
  proof (intro allI impI)
    fix j assume "j < k"
    then have "Suc j \<le> H" using hH by simp
    then have "Suc j * S \<le> H * S" by (rule mult_le_mono1)
    then have "Suc j * S \<le> length sb" using HS by (rule le_trans)
    moreover have "j * S + D \<le> Suc j * S" using DS by simp
    ultimately show "0 + j * S + D \<le> length sb" by simp
  qed
  have rf3: "rows sb 0 S D k = top_left sb S D k" using DS by (rule rows_top_left)
  have dbound: "0 + k * D \<le> length (replicate (alloc_bytes t sz) (None :: byte))"
    using kdl_le by simp
  have kk: "k - 0 = k" by simp
  from crop_loop_Inr [OF s1 d1 pq kk rf1 dbound]
  obtain hp2 where cl: "crop_loop hp1 (Some q) 0 (Some p) 0 D S k 0 = Inr hp2"
    and l2: "lookup hp2 = (lookup hp1)(q \<mapsto> overwrite (replicate (alloc_bytes t sz) None) 0 (rows sb 0 S D k))"
    by blast
  define bs' where "bs' = overwrite (replicate (alloc_bytes t sz) (None :: byte)) 0 (rows sb 0 S D k)"
  have lrows: "length (rows sb 0 S D k) = k * D"
    using rf1 by (rule length_rows)
  have "take (length (rows sb 0 S D k)) bs' = rows sb 0 S D k"
    unfolding bs'_def by (rule take_overwrite_0)
  then have "take (k * D) bs' = rows sb 0 S D k"
    unfolding lrows .
  then have tk: "take (k * D) bs' = top_left sb S D k"
    unfolding rf3 .
  have s2: "lookup hp2 p = Some sb" using l2 s1 pq by simp
  have d2: "lookup hp2 q = Some bs'" using l2 by (simp add: bs'_def)
  let ?t1 = "t\<lparr>data := Some q, memoryManaged := 1, capacity := sz\<rparr>"
  obtain t2 hp3 where de: "(if memoryManaged t \<noteq> 0 then deallocate ?t1 (Some p) hp2 else Inr (?t1, hp2)) = Inr (t2, hp3)"
    and t2: "t2\<lparr>capacity := len, dataLength := len, width := w, height := h\<rparr>
        = t\<lparr>data := Some q, memoryManaged := 1, capacity := len, dataLength := len, width := w, height := h\<rparr>"
    and l3: "lookup hp3 q = Some bs'" 
    and l3p: "lookup hp3 p = (if memoryManaged t \<noteq> 0 then None else Some sb)"
  proof (cases "memoryManaged t \<noteq> 0")
    case True
    from deallocate_Inr [OF s2, of ?t1] obtain hp3 where
      "deallocate ?t1 (Some p) hp2 = Inr (?t1\<lparr>capacity := 0, dataLength := 0\<rparr>, hp3)"
      "lookup hp3 = (lookup hp2)(p := None)" by blast
    then show ?thesis using True d2 qp by (intro that [of "?t1\<lparr>capacity := 0, dataLength := 0\<rparr>" hp3]) simp_all
  next
    case False
    then show ?thesis using d2 s2 by (intro that [of ?t1 hp2]) simp_all
  qed
  have "crop t w h hp =
        Inr (t\<lparr>data := Some q, memoryManaged := 1, capacity := len, dataLength := len,
               width := w, height := h\<rparr>, hp3)"
    using al cl de t2 dat
    by (simp add: crop_def Let_def len_def [symmetric] dl_def [symmetric] sl_def [symmetric]
          k_def [symmetric] dl_eq sl_eq)
  then show ?thesis
    using ulen qp l3 tk l3p
    unfolding len_def scanline_bytes_def C_def B_def W_def k_def D_def S_def by blast
qed

theorem crop_top_left_rectangle_witness:
  "data tile_4x4 = Some 0 \<and> lookup heap_4x4 0 = Some bytes_4x4
   \<and> unat (height tile_4x4) * scanline_bytes tile_4x4 (width tile_4x4) \<le> length bytes_4x4
   \<and> (2 :: 32 word) \<le> width tile_4x4 \<and> (2 :: 32 word) \<le> height tile_4x4
   \<and> scanline_bytes tile_4x4 (width tile_4x4) < 2 ^ 32
   \<and> unat (2 :: 32 word) * scanline_bytes tile_4x4 2 < 2 ^ 32
   \<and> alloc_bytes tile_4x4 (2 * 2 * channels tile_4x4 * int_div (bpc tile_4x4) 8) \<le> avail heap_4x4
   \<and> crop tile_4x4 2 2 heap_4x4
     = Inr (tile_4x4\<lparr>width := 2, height := 2, capacity := 4, dataLength := 4, data := Some 1\<rparr>,
            \<lparr>blocks = [(1, [Some 0, Some 1, Some 4, Some 5])], avail = 112\<rparr>)
   \<and> top_left bytes_4x4 (scanline_bytes tile_4x4 (width tile_4x4)) (scanline_bytes tile_4x4 2) 2
     = [Some 0, Some 1, Some 4, Some 5]"
proof -
  have h1: "data tile_4x4 = Some 0" by (simp add: tile_4x4_def)
  have h2: "lookup heap_4x4 0 = Some bytes_4x4" by (simp add: heap_4x4_def lookup_def)
  have sl: "scanline_bytes tile_4x4 (width tile_4x4) = 4" "scanline_bytes tile_4x4 2 = 2"
    by (simp_all add: scanline_bytes_def tile_4x4_def RawTile_ctor_def int_div_def)
  have ht: "unat (height tile_4x4) = 4" by (simp add: tile_4x4_def RawTile_ctor_def)
  have lb: "length bytes_4x4 = 16" by (simp add: bytes_4x4_def)
  have h3: "unat (height tile_4x4) * scanline_bytes tile_4x4 (width tile_4x4) \<le> length bytes_4x4"
    by (simp add: sl ht lb)
  have h4: "(2 :: 32 word) \<le> width tile_4x4" by (simp add: tile_4x4_def RawTile_ctor_def)
  have h5: "(2 :: 32 word) \<le> height tile_4x4" by (simp add: tile_4x4_def RawTile_ctor_def)
  have h6: "scanline_bytes tile_4x4 (width tile_4x4) < 2 ^ 32" by (simp add: sl)
  have h7: "unat (2 :: 32 word) * scanline_bytes tile_4x4 2 < 2 ^ 32" by (simp add: sl)
  have h8': "alloc_bytes tile_4x4 (2 * 2 * channels tile_4x4 * int_div (bpc tile_4x4) 8) \<le> avail heap_4x4"
    by (simp add: alloc_bytes_def tile_4x4_def RawTile_ctor_def int_div_def heap_4x4_def)
  have h8: "alloc_bytes tile_4x4
        (if 2 * 2 * channels tile_4x4 * int_div (bpc tile_4x4) 8 = 0 then implied_size tile_4x4
         else 2 * 2 * channels tile_4x4 * int_div (bpc tile_4x4) 8) \<le> avail heap_4x4"
    by (simp add: alloc_bytes_def tile_4x4_def RawTile_ctor_def int_div_def heap_4x4_def)
  have c: "crop tile_4x4 2 2 heap_4x4
     = Inr (tile_4x4\<lparr>width := 2, height := 2, capacity := 4, dataLength := 4, data := Some 1\<rparr>,
            \<lparr>blocks = [(1, [Some 0, Some 1, Some 4, Some 5])], avail = 112\<rparr>)"
    by code_simp
  from crop_top_left_rectangle [OF h1 h2 h3 h4 h5 h6 h7 h8]
  obtain hp' q bs' where r: "crop tile_4x4 2 2 heap_4x4 =
        Inr (tile_4x4\<lparr>data := Some q, memoryManaged := 1,
               capacity := 2 * 2 * channels tile_4x4 * int_div (bpc tile_4x4) 8,
               dataLength := 2 * 2 * channels tile_4x4 * int_div (bpc tile_4x4) 8,
               width := 2, height := 2\<rparr>, hp')"
    and l: "lookup hp' q = Some bs'"
    and t: "take (unat (2 :: 32 word) * scanline_bytes tile_4x4 2) bs'
          = top_left bytes_4x4 (scanline_bytes tile_4x4 (width tile_4x4)) (scanline_bytes tile_4x4 2)
              (unat (2 :: 32 word))"
    by blast
  from r c have "q = 1" and "hp' = \<lparr>blocks = [(1, [Some 0, Some 1, Some 4, Some 5])], avail = 112\<rparr>"
    by (simp_all add: tile_4x4_def RawTile_ctor_def)
  then have "bs' = [Some 0, Some 1, Some 4, Some 5]" using l by (simp add: lookup_def)
  then have "top_left bytes_4x4 (scanline_bytes tile_4x4 (width tile_4x4)) (scanline_bytes tile_4x4 2) 2
     = [Some 0, Some 1, Some 4, Some 5]"
    using t by (simp add: sl)
  then show ?thesis using h1 h2 h3 h4 h5 h6 h7 h8' c by simp
qed

text \<open>
  Claim C2 as it is written fails where the size of the result wraps around: for a tile
  of 65536 by 65536 pixels of one 8-bit channel, whose buffer holds its \<open>2 ^ 32\<close> bytes,
  \<open>crop 65536 65536\<close> computes the length 0, allocates no byte and copies the first scanline
  beyond the end of the new buffer.
\<close>

theorem crop_overflow_counterexample:
  "data tile_huge = Some 0
   \<and> lookup heap_huge 0 = Some (replicate (65536 * 65536) (Some 7))
   \<and> length (replicate (65536 * 65536) (Some 7 :: byte))
       = unat (height tile_huge) * scanline_bytes tile_huge (width tile_huge)
   \<and> (65536 :: 32 word) \<le> width tile_huge \<and> (65536 :: 32 word) \<le> height tile_huge
   \<and> crop tile_huge 65536 65536 heap_huge = Inl OutOfBounds"
proof -
  have "crop tile_huge 65536 65536 heap_huge = Inl OutOfBounds"
    apply (simp add: crop_def tile_huge_def heap_huge_def RawTile_ctor_def allocate_def
        alloc_bytes_def int_div_def new_array_def Let_def)
    apply (subst crop_loop.simps)
    apply (simp add: memcpy_def load_bytes_def store_bytes_def lookup_def)
    done
  then show ?thesis
    by (simp add: tile_huge_def heap_huge_def RawTile_ctor_def lookup_def scanline_bytes_def
          int_div_def)
qed

subsection \<open>Triplicate\<close>

text \<open>
  Claim C3, as amended. On a tile with \<open>channels \<noteq> 1\<close>, \<open>triplicate\<close> returns the tile
  and the memory as they are. On a tile with one channel of 8, 16 or 32 bits whose buffer is
  a live block holding its \<open>N = width * height\<close> elements, when the size of the expanded
  buffer, three times the size of these elements, is below \<open>2 ^ 32\<close> and the memory system
  can supply it, \<open>triplicate\<close> returns a tile of 3 channels with the same width, height,
  bits per channel and sample type, whose buffer is another block of \<open>3 * N\<close> elements in
  which the elements \<open>3 * i\<close>, \<open>3 * i + 1\<close> and \<open>3 * i + 2\<close> each equal the element \<open>i\<close>
  of the old buffer, for every pixel \<open>i < N\<close>.
\<close>

theorem triplicate_expands:
  "(channels t \<noteq> 1 \<longrightarrow> triplicate t hp = Inr (t, hp))
   \<and> (channels t = 1 \<and> (bpc t = 8 \<or> bpc t = 16 \<or> bpc t = 32)
       \<and> data t = Some p \<and> lookup hp p = Some sb
       \<and> unat (width t) * unat (height t) * elem_size t \<le> length sb
       \<and> 3 * (unat (width t) * unat (height t) * elem_size t) < 2 ^ 32
       \<and> 3 * (unat (width t) * unat (height t) * elem_size t) \<le> avail hp
      \<longrightarrow> (\<exists>t' hp' q bs'.
            triplicate t hp = Inr (t', hp')
            \<and> channels t' = 3 \<and> width t' = width t \<and> height t' = height t
            \<and> bpc t' = bpc t \<and> sampleType t' = sampleType t
            \<and> data t' = Some q \<and> q \<noteq> p \<and> lookup hp' q = Some bs'
            \<and> length bs' = 3 * (unat (width t) * unat (height t)) * elem_size t
            \<and> (\<forall>i < unat (width t) * unat (height t). \<forall>k < 3.
                  sample (elem_size t) bs' (3 * i + k) = sample (elem_size t) sb i)))"
proof (intro conjI impI)
  assume "channels t \<noteq> 1"
  then show "triplicate t hp = Inr (t, hp)" by (rule triplicate_noop)
next
  assume a: "channels t = 1 \<and> (bpc t = 8 \<or> bpc t = 16 \<or> bpc t = 32)
       \<and> data t = Some p \<and> lookup hp p = Some sb
       \<and> unat (width t) * unat (height t) * elem_size t \<le> length sb
       \<and> 3 * (unat (width t) * unat (height t) * elem_size t) < 2 ^ 32
       \<and> 3 * (unat (width t) * unat (height t) * elem_size t) \<le> avail hp"
  define N where "N = unat (width t) * unat (height t)"
  define es where "es = elem_size t"
  have holds: "N * es \<le> length sb" using a by (simp add: N_def es_def)
  from a have "\<exists>hp' q.
      triplicate t hp =
        Inr (t\<lparr>channels := 3, data := Some q, memoryManaged := 1,
               capacity := width t * height t, dataLength := width t * height t\<rparr>, hp')
      \<and> q \<noteq> p
      \<and> lookup hp' q = Some (tripled (elem_size t) sb 0 (unat (width t) * unat (height t)))
      \<and> lookup hp' p = (if memoryManaged t \<noteq> 0 then None else Some sb)"
    by (intro triplicate_expand) simp_all
  then obtain hp' q where r: "triplicate t hp =
        Inr (t\<lparr>channels := 3, data := Some q, memoryManaged := 1,
               capacity := width t * height t, dataLength := width t * height t\<rparr>, hp')"
    and qp: "q \<noteq> p" and l: "lookup hp' q = Some (tripled es sb 0 N)"
    unfolding N_def es_def by blast
  have "length (tripled es sb 0 N) = N * (3 * es)"
    using holds by (rule length_tripled) simp
  then have len: "length (tripled es sb 0 N) = 3 * N * es" by (simp add: mult_ac)
  have "\<forall>i<N. \<forall>k<3. sample es (tripled es sb 0 N) (3 * i + k) = sample es sb i"
    using sample_tripled [OF holds] by blast
  then show "\<exists>t' hp' q bs'.
            triplicate t hp = Inr (t', hp')
            \<and> channels t' = 3 \<and> width t' = width t \<and> height t' = height t
            \<and> bpc t' = bpc t \<and> sampleType t' = sampleType t
            \<and> data t' = Some q \<and> q \<noteq> p \<and> lookup hp' q = Some bs'
            \<and> length bs' = 3 * (unat (width t) * unat (height t)) * elem_size t
            \<and> (\<forall>i < unat (width t) * unat (height t). \<forall>k < 3.
                  sample (elem_size t) bs' (3 * i + k) = sample (elem_size t) sb i)"
    using r qp l len unfolding N_def es_def
    by (intro exI [of _ "t\<lparr>channels := 3, data := Some q, memoryManaged := 1,
               capacity := width t * height t, dataLength := width t * height t\<rparr>"]
          exI [of _ hp'] exI [of _ q]
          exI [of _ "tripled (elem_size t) sb 0 (unat (width t) * unat (height t))"]) simp
qed

theorem triplicate_expands_witness:
  "channels (tile_4x4\<lparr>channels := 3\<rparr>) \<noteq> 1
   \<and> triplicate (tile_4x4\<lparr>channels := 3\<rparr>) heap_4x4 = Inr (tile_4x4\<lparr>channels := 3\<rparr>, heap_4x4)
   \<and> channels tile_2x1_16 = 1 \<and> bpc tile_2x1_16 = 16
   \<and> data tile_2x1_16 = Some 0 \<and> lookup heap_2x1_16 0 = Some [Some 1, Some 2, Some 3, Some 4]
   \<and> unat (width tile_2x1_16) * unat (height tile_2x1_16) * elem_size tile_2x1_16 = 4
   \<and> avail heap_2x1_16 = 100
   \<and> triplicate tile_2x1_16 heap_2x1_16
     = Inr (tile_2x1_16\<lparr>channels := 3, capacity := 2, dataLength := 2, data := Some 1\<rparr>,
            \<lparr>blocks = [(1, [Some 1, Some 2, Some 1, Some 2, Some 1, Some 2,
                             Some 3, Some 4, Some 3, Some 4, Some 3, Some 4])], avail = 92\<rparr>)
   \<and> sample 2 [Some 1, Some 2, Some 1, Some 2, Some 1, Some 2,
                 Some 3, Some 4, Some 3, Some 4, Some 3, Some 4 :: byte] (3 * 0 + 0)
       = sample 2 [Some 1, Some 2, Some 3, Some 4] 0
   \<and> sample 2 [Some 1, Some 2, Some 1, Some 2, Some 1, Some 2,
                 Some 3, Some 4, Some 3, Some 4, Some 3, Some 4 :: byte] (3 * 0 + 1)
       = sample 2 [Some 1, Some 2, Some 3, Some 4] 0
   \<and> sample 2 [Some 1, Some 2, Some 1, Some 2, Some 1, Some 2,
                 Some 3, Some 4, Some 3, Some 4, Some 3, Some 4 :: byte] (3 * 0 + 2)
       = sample 2 [Some 1, Some 2, Some 3, Some 4] 0
   \<and> sample 2 [Some 1, Some 2, Some 1, Some 2, Some 1, Some 2,
                 Some 3, Some 4, Some 3, Some 4, Some 3, Some 4 :: byte] (3 * 1 + 0)
       = sample 2 [Some 1, Some 2, Some 3, Some 4] 1
   \<and> sample 2 [Some 1, Some 2, Some 1, Some 2, Some 1, Some 2,
                 Some 3, Some 4, Some 3, Some 4, Some 3, Some 4 :: byte] (3 * 1 + 1)
       = sample 2 [Some 1, Some 2, Some 3, Some 4] 1
   \<and> sample 2 [Some 1, Some 2, Some 1, Some 2, Some 1, Some 2,
                 Some 3, Some 4, Some 3, Some 4, Some 3, Some 4 :: byte] (3 * 1 + 2)
       = sample 2 [Some 1, Some 2, Some 3, Some 4] 1"
proof -
  have a1: "channels (tile_4x4\<lparr>channels := 3\<rparr>) \<noteq> 1" by simp
  have a2: "triplicate (tile_4x4\<lparr>channels := 3\<rparr>) heap_4x4 = Inr (tile_4x4\<lparr>channels := 3\<rparr>, heap_4x4)"
    using triplicate_expands [of "tile_4x4\<lparr>channels := 3\<rparr>" heap_4x4] a1 by simp
  have b1: "channels tile_2x1_16 = 1" by (simp add: tile_2x1_16_def RawTile_ctor_def)
  have b2: "bpc tile_2x1_16 = 16" by (simp add: tile_2x1_16_def RawTile_ctor_def)
  have b3: "data tile_2x1_16 = Some 0" by (simp add: tile_2x1_16_def)
  have b4: "lookup heap_2x1_16 0 = Some [Some 1, Some 2, Some 3, Some 4]"
    by (simp add: heap_2x1_16_def lookup_def)
  have es: "elem_size tile_2x1_16 = 2" by (simp add: elem_size_def b2)
  have wh: "unat (width tile_2x1_16) * unat (height tile_2x1_16) = 2"
    by (simp add: tile_2x1_16_def RawTile_ctor_def)
  have b5: "unat (width tile_2x1_16) * unat (height tile_2x1_16) * elem_size tile_2x1_16 = 4"
    by (simp add: es wh)
  have b6: "avail heap_2x1_16 = 100" by (simp add: heap_2x1_16_def)
  have e: "triplicate tile_2x1_16 heap_2x1_16
     = Inr (tile_2x1_16\<lparr>channels := 3, capacity := 2, dataLength := 2, data := Some 1\<rparr>,
            \<lparr>blocks = [(1, [Some 1, Some 2, Some 1, Some 2, Some 1, Some 2,
                             Some 3, Some 4, Some 3, Some 4, Some 3, Some 4])], avail = 92\<rparr>)"
    by code_simp
  have "\<exists>t' hp' q bs'.
            triplicate tile_2x1_16 heap_2x1_16 = Inr (t', hp')
            \<and> channels t' = 3 \<and> width t' = width tile_2x1_16 \<and> height t' = height tile_2x1_16
            \<and> bpc t' = bpc tile_2x1_16 \<and> sampleType t' = sampleType tile_2x1_16
            \<and> data t' = Some q \<and> q \<noteq> 0 \<and> lookup hp' q = Some bs'
            \<and> length bs' = 3 * (unat (width tile_2x1_16) * unat (height tile_2x1_16)) * elem_size tile_2x1_16
            \<and> (\<forall>i < unat (width tile_2x1_16) * unat (height tile_2x1_16). \<forall>k < 3.
                  sample (elem_size tile_2x1_16) bs' (3 * i + k)
                    = sample (elem_size tile_2x1_16) [Some 1, Some 2, Some 3, Some 4] i)"
    using triplicate_expands [of tile_2x1_16 heap_2x1_16 0 "[Some 1, Some 2, Some 3, Some 4]"]
      b1 b2 b3 b4 b5 b6 by simp
  then obtain t' hp' q bs' where r: "triplicate tile_2x1_16 heap_2x1_16 = Inr (t', hp')"
    and d: "data t' = Some q" and l: "lookup hp' q = Some bs'"
    and s: "\<forall>i<2. \<forall>k<3. sample 2 bs' (3 * i + k) = sample 2 [Some 1, Some 2, Some 3, Some 4] i"
    unfolding es wh by blast
  from r e d have "q = 1"
    and "hp' = \<lparr>blocks = [(1, [Some 1, Some 2, Some 1, Some 2, Some 1, Some 2,
                             Some 3, Some 4, Some 3, Some 4, Some 3, Some 4])], avail = 92\<rparr>"
    by (auto simp: tile_2x1_16_def RawTile_ctor_def)
  then have bs: "bs' = [Some 1, Some 2, Some 1, Some 2, Some 1, Some 2,
                    Some 3, Some 4, Some 3, Some 4, Some 3, Some 4]"
    using l by (simp add: lookup_def)
  have s': "sample 2 bs' (3 * i + k) = sample 2 [Some 1, Some 2, Some 3, Some 4] i"
    if "i < 2" "k < 3" for i k
    using s that by blast
  have "sample 2 bs' (3 * 0 + 0) = sample 2 [Some 1, Some 2, Some 3, Some 4] 0"
    and "sample 2 bs' (3 * 0 + 1) = sample 2 [Some 1, Some 2, Some 3, Some 4] 0"
    and "sample 2 bs' (3 * 0 + 2) = sample 2 [Some 1, Some 2, Some 3, Some 4] 0"
    and "sample 2 bs' (3 * 1 + 0) = sample 2 [Some 1, Some 2, Some 3, Some 4] 1"
    and "sample 2 bs' (3 * 1 + 1) = sample 2 [Some 1, Some 2, Some 3, Some 4] 1"
    and "sample 2 bs' (3 * 1 + 2) = sample 2 [Some 1, Some 2, Some 3, Some 4] 1"
    by (rule s'; simp)+
  then show ?thesis using a1 a2 b1 b2 b3 b4 b5 b6 e unfolding bs by blast
qed

text \<open>
  Claim C3 as it is written fails where the size of the expanded buffer wraps around: for a
  tile of 1431655766 by 1 pixels of one 8-bit channel, whose buffer holds them,
  \<open>triplicate\<close> allocates 2 bytes and writes the third copy of the first pixel beyond
  them.
\<close>

theorem triplicate_overflow_counterexample:
  "channels tile_wide = 1 \<and> bpc tile_wide = 8 \<and> data tile_wide = Some 0
   \<and> lookup heap_wide 0 = Some (replicate 1431655766 (Some 7))
   \<and> length (replicate 1431655766 (Some 7 :: byte))
       = unat (width tile_wide) * unat (height tile_wide) * elem_size tile_wide
   \<and> triplicate tile_wide heap_wide = Inl OutOfBounds"
proof -
  have "triplicate tile_wide heap_wide = Inl OutOfBounds"
    apply (simp add: triplicate_def tile_wide_def heap_wide_def RawTile_ctor_def allocate_def
        alloc_bytes_def int_div_def new_array_def Let_def)
    apply (subst trip_loop.simps)
    apply (simp add: trip_inner_unroll elem_size_def copy_elem_def load_bytes_def store_bytes_def
        lookup_def set_block_def overwrite_def)
    done
  then show ?thesis
    by (simp add: tile_wide_def heap_wide_def RawTile_ctor_def lookup_def elem_size_def)
qed

subsection \<open>Move\<close>

text \<open>
  Claim C4. Move assignment to a tile that holds data runs \<^verbatim>\<open>delete this\<close> and then
  writes the members of the deleted object: the destination adopts nothing. Here the
  destination is the 4 by 4 tile and the source a tile that owns a buffer of its own. The
  move constructor, and move assignment to a destination without data, do transfer the
  buffer (\<open>move_ctor_owner\<close>, \<open>move_assign_owner\<close>).
\<close>

theorem move_assign_nonempty_destination:
  "move_assign False tile_4x4 tile_other heap_two = Inl UseAfterDelete"
  by code_simp

subsection \<open>Comparison\<close>

text \<open>
  Claim C5. \<open>A == B\<close> is true exactly when the two tiles agree on tile number,
  resolution, horizontal sequence, vertical sequence, compression type, quality and
  filename; no other field of either tile, the pixel data and the geometry among them, has
  an influence on the result.
\<close>

theorem op_eq_seven_fields:
  "(op_eq A B \<noteq> 0) =
     (tileNum A = tileNum B \<and> resolution A = resolution B \<and> hSequence A = hSequence B
      \<and> vSequence A = vSequence B \<and> compressionType A = compressionType B
      \<and> quality A = quality B \<and> filename A = filename B)
   \<and> op_eq (A\<lparr>width := w, height := h, channels := c, bpc := b, sampleType := st,
               timestamp := ts, capacity := cap, dataLength := dl, memoryManaged := mm,
               data := d\<rparr>) B = op_eq A B
   \<and> op_eq A (B\<lparr>width := w, height := h, channels := c, bpc := b, sampleType := st,
               timestamp := ts, capacity := cap, dataLength := dl, memoryManaged := mm,
               data := d\<rparr>) = op_eq A B"
  by (simp add: op_eq_def)

text \<open>
  Claim C9. \<open>A != B\<close> is true exactly when \<open>A == B\<close> is false.
\<close>

theorem op_ne_negates_op_eq: "(op_ne A B \<noteq> 0) = (\<not> (op_eq A B \<noteq> 0))"
  by (simp add: op_eq_def op_ne_def)

subsection \<open>Allocation and release\<close>

text \<open>
  Claim C6. After \<open>allocate\<close> and then \<open>deallocate\<close> of the buffer just allocated,
  \<open>capacity\<close> and \<open>dataLength\<close> are 0, but the field \<open>data\<close> still holds the address of
  the released block: \<open>deallocate\<close> clears its own parameter only. Evaluated on a fresh
  2 by 2 tile of one 8-bit channel.
\<close>

theorem allocate_deallocate_leaves_data:
  "allocate tile_2x2 0 heap_empty
     = Inr (tile_2x2\<lparr>data := Some 0, memoryManaged := 1, capacity := 4\<rparr>,
            \<lparr>blocks = [(0, [None, None, None, None])], avail = 96\<rparr>)
   \<and> deallocate (tile_2x2\<lparr>data := Some 0, memoryManaged := 1, capacity := 4\<rparr>) (Some 0)
        \<lparr>blocks = [(0, [None, None, None, None])], avail = 96\<rparr>
     = Inr (tile_2x2\<lparr>data := Some 0\<rparr>, heap_empty)
   \<and> capacity (tile_2x2\<lparr>data := Some 0\<rparr>) = 0
   \<and> dataLength (tile_2x2\<lparr>data := Some 0\<rparr>) = 0
   \<and> data (tile_2x2\<lparr>data := Some 0\<rparr>) \<noteq> None
   \<and> lookup heap_empty 0 = None"
  by code_simp

text \<open>
  Claim C7. Called with the size 0, \<open>allocate\<close> takes \<open>width * height * channels *
  (bpc/8)\<close> as the size. Whenever the memory system can supply the bytes, \<open>allocate\<close>
  returns, \<open>capacity\<close> is the size, the tile is marked as owning its buffer, and the
  buffer reference is a new block, so it is not empty.
\<close>

theorem allocate_sets_capacity:
  assumes "alloc_bytes t (if sz = 0 then width t * height t * channels t * int_div (bpc t) 8 else sz)
             \<le> avail hp"
  shows "\<exists>t' hp' p.
      allocate t sz hp = Inr (t', hp')
      \<and> capacity t' = (if sz = 0 then width t * height t * channels t * int_div (bpc t) 8 else sz)
      \<and> memoryManaged t' = 1
      \<and> data t' = Some p
      \<and> lookup hp p = None
      \<and> lookup hp' p = Some (replicate (alloc_bytes t (capacity t')) None)"
proof -
  from allocate_Inr [OF refl assms]
  obtain hp' where "allocate t sz hp
        = Inr (t\<lparr>data := Some (fresh_addr (blocks hp)), memoryManaged := 1,
                 capacity := (if sz = 0 then width t * height t * channels t * int_div (bpc t) 8 else sz)\<rparr>, hp')"
     and "lookup hp' = (lookup hp)(fresh_addr (blocks hp) \<mapsto> replicate (alloc_bytes t (if sz = 0 then width t * height t * channels t * int_div (bpc t) 8 else sz)) None)"
    by blast
  then show ?thesis using lookup_fresh [of hp] by simp
qed

theorem allocate_sets_capacity_witness:
  "alloc_bytes (tile_2x2\<lparr>channels := 3, bpc := 32, sampleType := FLOATINGPOINT\<rparr>)
       (if (0 :: 32 word) = 0 then 2 * 2 * 3 * int_div 32 8 else 0) \<le> avail heap_empty
   \<and> (\<exists>t' hp' p.
        allocate (tile_2x2\<lparr>channels := 3, bpc := 32, sampleType := FLOATINGPOINT\<rparr>) 0 heap_empty
          = Inr (t', hp')
        \<and> capacity t' = 48 \<and> memoryManaged t' = 1 \<and> data t' = Some p
        \<and> lookup hp' p = Some (replicate 48 None))"
proof -
  have h: "alloc_bytes (tile_2x2\<lparr>channels := 3, bpc := 32, sampleType := FLOATINGPOINT\<rparr>)
       (if (0 :: 32 word) = 0
        then width (tile_2x2\<lparr>channels := 3, bpc := 32, sampleType := FLOATINGPOINT\<rparr>)
           * height (tile_2x2\<lparr>channels := 3, bpc := 32, sampleType := FLOATINGPOINT\<rparr>)
           * channels (tile_2x2\<lparr>channels := 3, bpc := 32, sampleType := FLOATINGPOINT\<rparr>)
           * int_div (bpc (tile_2x2\<lparr>channels := 3, bpc := 32, sampleType := FLOATINGPOINT\<rparr>)) 8
        else 0) \<le> avail heap_empty"
    by (simp add: alloc_bytes_def tile_2x2_def RawTile_ctor_def heap_empty_def int_div_def)
  show ?thesis
    using allocate_sets_capacity [OF h] h
    by (auto simp: alloc_bytes_def tile_2x2_def RawTile_ctor_def heap_empty_def int_div_def)
qed

text \<open>
  Claim C10. \<open>deallocate\<close> of a null pointer changes neither the tile, \<open>capacity\<close> and
  \<open>dataLength\<close> included, nor the memory.
\<close>

theorem deallocate_null_noop: "deallocate t None hp = Inr (t, hp)"
  by (simp add: deallocate_def)

subsection \<open>Copy\<close>

text \<open>
  Claim C8, as amended. Let the source have a buffer reference that is not empty and a
  positive \<open>dataLength\<close>, a whole number of elements that its block holds and that the
  memory system can supply. Then the copy constructor and copy assignment return a tile
  with the fields of the source, marked as owning, with \<open>capacity = dataLength\<close>, whose buffer
  is a new block, distinct from the source's, that holds the first \<open>dataLength\<close> bytes of
  the source buffer; every other block, the source buffer among them, is unchanged, and
  whatever is written into the copy's buffer afterwards leaves the source buffer as it was.
  The source tile itself is \<^verbatim>\<open>const\<close>. For a source with an empty buffer reference or
  \<open>dataLength = 0\<close> nothing is allocated or copied and the destination takes the ownership
  flag of the source.
\<close>

theorem copy_is_deep:
  "(data tile = Some p \<and> lookup hp p = Some sb \<and> 0 < dataLength tile
     \<and> unat (dataLength tile) \<le> length sb
     \<and> elem_size tile dvd unat (dataLength tile)
     \<and> unat (dataLength tile) \<le> avail hp
    \<longrightarrow>
      (\<exists>hp' q.
        copy_ctor tile hp =
          Inr (tile\<lparr>data := Some q, memoryManaged := 1, capacity := dataLength tile\<rparr>, hp')
        \<and> q \<noteq> p \<and> lookup hp q = None
        \<and> lookup hp' q = Some (take (unat (dataLength tile)) sb)
        \<and> (\<forall>a. a \<noteq> q \<longrightarrow> lookup hp' a = lookup hp a)
        \<and> (\<forall>off vs hp''. store_bytes hp' (Some q) off vs = Inr hp'' \<longrightarrow> lookup hp'' p = Some sb))
      \<and> (\<exists>hp' q.
        copy_assign False this tile hp =
          Inr (tile\<lparr>data := Some q, memoryManaged := 1, capacity := dataLength tile\<rparr>, hp')
        \<and> q \<noteq> p \<and> lookup hp q = None
        \<and> lookup hp' q = Some (take (unat (dataLength tile)) sb)
        \<and> (\<forall>a. a \<noteq> q \<longrightarrow> lookup hp' a = lookup hp a)
        \<and> (\<forall>off vs hp''. store_bytes hp' (Some q) off vs = Inr hp'' \<longrightarrow> lookup hp'' p = Some sb)))
   \<and> (data tile = None \<or> dataLength tile = 0
    \<longrightarrow> copy_ctor tile hp = Inr (tile\<lparr>data := None\<rparr>, hp)
      \<and> copy_assign False this tile hp = Inr (tile\<lparr>data := data this\<rparr>, hp))"
proof (intro conjI impI)
  assume "data tile = None \<or> dataLength tile = 0"
  then show "copy_ctor tile hp = Inr (tile\<lparr>data := None\<rparr>, hp)"
    by (auto simp: copy_ctor_def Let_def copy_ctor_this)
next
  assume "data tile = None \<or> dataLength tile = 0"
  then show "copy_assign False this tile hp = Inr (tile\<lparr>data := data this\<rparr>, hp)"
    by (auto simp: copy_assign_def Let_def copy_assign_this)
next
  assume a: "data tile = Some p \<and> lookup hp p = Some sb \<and> 0 < dataLength tile
     \<and> unat (dataLength tile) \<le> length sb
     \<and> elem_size tile dvd unat (dataLength tile)
     \<and> unat (dataLength tile) \<le> avail hp"
  then have g: "(\<exists>hp' q.
      copy_ctor tile hp =
        Inr (tile\<lparr>data := Some q, memoryManaged := 1, capacity := dataLength tile\<rparr>, hp')
      \<and> q \<noteq> p \<and> lookup hp q = None
      \<and> lookup hp' q = Some (take (unat (dataLength tile)) sb)
      \<and> (\<forall>a. a \<noteq> q \<longrightarrow> lookup hp' a = lookup hp a)
      \<and> (\<forall>off vs hp''. store_bytes hp' (Some q) off vs = Inr hp'' \<longrightarrow> lookup hp'' p = Some sb))
    \<and> (\<exists>hp' q.
      copy_assign False this tile hp =
        Inr (tile\<lparr>data := Some q, memoryManaged := 1, capacity := dataLength tile\<rparr>, hp')
      \<and> q \<noteq> p \<and> lookup hp q = None
      \<and> lookup hp' q = Some (take (unat (dataLength tile)) sb)
      \<and> (\<forall>a. a \<noteq> q \<longrightarrow> lookup hp' a = lookup hp a)
      \<and> (\<forall>off vs hp''. store_bytes hp' (Some q) off vs = Inr hp'' \<longrightarrow> lookup hp'' p = Some sb))"
    by (intro copy_general) simp_all
  from g show "\<exists>hp' q.
      copy_ctor tile hp =
        Inr (tile\<lparr>data := Some q, memoryManaged := 1, capacity := dataLength tile\<rparr>, hp')
      \<and> q \<noteq> p \<and> lookup hp q = None
      \<and> lookup hp' q = Some (take (unat (dataLength tile)) sb)
      \<and> (\<forall>a. a \<noteq> q \<longrightarrow> lookup hp' a = lookup hp a)
      \<and> (\<forall>off vs hp''. store_bytes hp' (Some q) off vs = Inr hp'' \<longrightarrow> lookup hp'' p = Some sb)"
    by (rule conjunct1)
  from g show "\<exists>hp' q.
      copy_assign False this tile hp =
        Inr (tile\<lparr>data := Some q, memoryManaged := 1, capacity := dataLength tile\<rparr>, hp')
      \<and> q \<noteq> p \<and> lookup hp q = None
      \<and> lookup hp' q = Some (take (unat (dataLength tile)) sb)
      \<and> (\<forall>a. a \<noteq> q \<longrightarrow> lookup hp' a = lookup hp a)
      \<and> (\<forall>off vs hp''. store_bytes hp' (Some q) off vs = Inr hp'' \<longrightarrow> lookup hp'' p = Some sb)"
    by (rule conjunct2)
qed

theorem copy_is_deep_witness:
  "data tile_4x4 = Some 0 \<and> lookup heap_4x4 0 = Some bytes_4x4 \<and> 0 < dataLength tile_4x4
   \<and> unat (dataLength tile_4x4) \<le> length bytes_4x4
   \<and> elem_size tile_4x4 dvd unat (dataLength tile_4x4)
   \<and> unat (dataLength tile_4x4) \<le> avail heap_4x4
   \<and> copy_ctor tile_4x4 heap_4x4
       = Inr (tile_4x4\<lparr>data := Some 1\<rparr>, \<lparr>blocks = [(1, bytes_4x4), (0, bytes_4x4)], avail = 84\<rparr>)
   \<and> copy_assign False tile_2x2 tile_4x4 heap_4x4
       = Inr (tile_4x4\<lparr>data := Some 1\<rparr>, \<lparr>blocks = [(1, bytes_4x4), (0, bytes_4x4)], avail = 84\<rparr>)
   \<and> lookup \<lparr>blocks = [(1, Some 255 # tl bytes_4x4), (0, bytes_4x4)], avail = 84\<rparr> 0
       = Some bytes_4x4
   \<and> store_bytes \<lparr>blocks = [(1, bytes_4x4), (0, bytes_4x4)], avail = 84\<rparr> (Some 1) 0 [Some 255]
       = Inr \<lparr>blocks = [(1, Some 255 # tl bytes_4x4), (0, bytes_4x4)], avail = 84\<rparr>
   \<and> data tile_moved_from = None
   \<and> copy_ctor tile_moved_from heap_empty = Inr (tile_moved_from\<lparr>data := None\<rparr>, heap_empty)
   \<and> copy_assign False tile_2x2 tile_moved_from heap_empty
       = Inr (tile_moved_from\<lparr>data := data tile_2x2\<rparr>, heap_empty)"
proof -
  have h1: "data tile_4x4 = Some 0" by (simp add: tile_4x4_def)
  have h2: "lookup heap_4x4 0 = Some bytes_4x4" by (simp add: heap_4x4_def lookup_def)
  have dl: "dataLength tile_4x4 = 16" by (simp add: tile_4x4_def)
  have lb: "length bytes_4x4 = 16" by (simp add: bytes_4x4_def)
  have es: "elem_size tile_4x4 = 1" by (simp add: elem_size_def tile_4x4_def RawTile_ctor_def)
  have av: "avail heap_4x4 = 100" by (simp add: heap_4x4_def)
  have hyp: "data tile_4x4 = Some 0 \<and> lookup heap_4x4 0 = Some bytes_4x4 \<and> 0 < dataLength tile_4x4
     \<and> unat (dataLength tile_4x4) \<le> length bytes_4x4
     \<and> elem_size tile_4x4 dvd unat (dataLength tile_4x4)
     \<and> unat (dataLength tile_4x4) \<le> avail heap_4x4"
    using h1 h2 by (simp add: dl lb es av)
  have c1: "copy_ctor tile_4x4 heap_4x4
       = Inr (tile_4x4\<lparr>data := Some 1\<rparr>, \<lparr>blocks = [(1, bytes_4x4), (0, bytes_4x4)], avail = 84\<rparr>)"
    by code_simp
  have c2: "copy_assign False tile_2x2 tile_4x4 heap_4x4
       = Inr (tile_4x4\<lparr>data := Some 1\<rparr>, \<lparr>blocks = [(1, bytes_4x4), (0, bytes_4x4)], avail = 84\<rparr>)"
    by code_simp
  have c3: "store_bytes \<lparr>blocks = [(1, bytes_4x4), (0, bytes_4x4)], avail = 84\<rparr> (Some 1) 0 [Some 255]
       = Inr \<lparr>blocks = [(1, Some 255 # tl bytes_4x4), (0, bytes_4x4)], avail = 84\<rparr>"
    by code_simp
  note th = copy_is_deep [of tile_4x4 0 heap_4x4 bytes_4x4 tile_2x2]
  from th hyp obtain hp' q where r: "copy_ctor tile_4x4 heap_4x4 =
          Inr (tile_4x4\<lparr>data := Some q, memoryManaged := 1, capacity := dataLength tile_4x4\<rparr>, hp')"
    and iso: "\<forall>off vs hp''. store_bytes hp' (Some q) off vs = Inr hp'' \<longrightarrow> lookup hp'' 0 = Some bytes_4x4"
    by blast
  from r c1 have "q = 1" and "hp' = \<lparr>blocks = [(1, bytes_4x4), (0, bytes_4x4)], avail = 84\<rparr>"
    by (simp_all add: tile_4x4_def RawTile_ctor_def)
  then have "\<forall>off vs hp''.
         store_bytes \<lparr>blocks = [(1, bytes_4x4), (0, bytes_4x4)], avail = 84\<rparr> (Some 1) off vs = Inr hp''
         \<longrightarrow> lookup hp'' 0 = Some bytes_4x4"
    using iso by simp
  then have iso': "lookup \<lparr>blocks = [(1, Some 255 # tl bytes_4x4), (0, bytes_4x4)], avail = 84\<rparr> 0
       = Some bytes_4x4"
    using c3 by blast
  have e0: "data tile_moved_from = None" by (simp add: tile_moved_from_def RawTile_ctor_def)
  have e1: "copy_ctor tile_moved_from heap_empty = Inr (tile_moved_from\<lparr>data := None\<rparr>, heap_empty)"
    and e2: "copy_assign False tile_2x2 tile_moved_from heap_empty
       = Inr (tile_moved_from\<lparr>data := data tile_2x2\<rparr>, heap_empty)"
    using copy_is_deep [of tile_moved_from _ heap_empty _ tile_2x2] e0 by simp_all
  show ?thesis using hyp c1 c2 c3 iso' e0 e1 e2 by simp
qed

text \<open>
  Claim C8 as it is written fails for a source without data: the copy of a tile that a move
  has left behind owns nothing and is not marked as owning.
\<close>

theorem copy_empty_source_counterexample:
  "copy_ctor tile_moved_from heap_empty = Inr (tile_moved_from, heap_empty)
   \<and> memoryManaged tile_moved_from = 0 \<and> data tile_moved_from = None
   \<and> blocks heap_empty = []"
  by code_simp

end
